theory Spec2Isabelle
  imports Complex_Main
begin

section \<open>Python values used by the controller\<close>

text \<open>
  A \<open>datetime\<close> is a count of microseconds (its resolution) and a \<open>timedelta\<close> the
  difference of two of them. The clock is a parameter \<open>now\<close> of every operation that reads
  \<open>datetime.now()\<close>; the reads inside one call are taken at the same instant.
  \<open>seconds\<close> and \<open>minutes\<close> write such counts.
\<close>

type_synonym time = int

definition seconds :: "int \<Rightarrow> int" where
  "seconds n = n * 1000000"

definition minutes :: "int \<Rightarrow> int" where
  "minutes m = m * 60000000"

text \<open>Exceptions that leave a function of the agent.\<close>

datatype exn = KeyError string | OverflowError | Raised string

text \<open>
  \<open>timedelta(minutes=m)\<close>: a \<open>timedelta\<close> holds at most 999999999 days in either direction
  and the constructor raises \<open>OverflowError\<close> beyond that.
\<close>

definition timedelta_minutes :: "int \<Rightarrow> exn + int" where
  "timedelta_minutes m =
     (if m \<ge> 1440000000000 \<or> m \<le> - 1439999998561 then Inl OverflowError
      else Inr (m * 60000000))"

text \<open>
  A Python float is an IEEE 754 double, modelled by the real number that is its value.
  \<open>round_double\<close> is rounding to the nearest double, ties to the even significand: what
  Python does when it reads a decimal literal and after every arithmetic operation. The
  spacing of the doubles around \<open>x\<close> is 2 to the power \<open>binade x - 52\<close>; below 2 to the
  power -1022 it stays that of the subnormal numbers. A result beyond the largest double
  is an infinity in Python; the theorems keep such arguments out by hypothesis.
\<close>

definition round_half_even :: "real \<Rightarrow> int" where
  "round_half_even y =
     (let f = \<lfloor>y\<rfloor>; r = y - of_int f
      in if r < 1 / 2 then f else if r > 1 / 2 then f + 1 else if even f then f else f + 1)"

definition binade :: "real \<Rightarrow> int" where
  "binade x = max \<lfloor>log 2 \<bar>x\<bar>\<rfloor> (- 1022)"

definition round_double :: "real \<Rightarrow> real" where
  "round_double x =
     (if x = 0 then 0
      else of_int (round_half_even (x / 2 powi (binade x - 52))) * 2 powi (binade x - 52))"

definition fmul :: "real \<Rightarrow> real \<Rightarrow> real" where
  "fmul a b = round_double (a * b)"

definition fadd :: "real \<Rightarrow> real \<Rightarrow> real" where
  "fadd a b = round_double (a + b)"

text \<open>
  The functions of the agent only compare risk scores with the literals 0.4, 0.6 and
  0.8, and are written over the reals with these decimals as thresholds. A double is
  read there by \<open>reading\<close>: the doubles of the three literals as the decimals themselves,
  every other double as its own value. \<open>reading\<close> keeps the order of the doubles, so a
  comparison of the agent gives on \<open>reading d\<close> what Python gives on \<open>d\<close>. In the other
  direction a real stands for the double nearest to it.
\<close>

definition reading :: "real \<Rightarrow> real" where
  "reading d =
     (if d = round_double 0.4 then 0.4
      else if d = round_double 0.6 then 0.6
      else if d = round_double 0.8 then 0.8
      else d)"

text \<open>
  A Python \<open>dict\<close> keeps its keys in insertion order: it is a list of key/value pairs.
  \<open>dict_contains\<close> is \<open>k in d\<close>, \<open>dict_set\<close> is \<open>d[k] = v\<close> (an existing key keeps its
  place, a new key goes to the end) and \<open>dict_pop\<close> is \<open>d.pop(k)\<close>, which raises
  \<open>KeyError\<close> (here: \<open>None\<close>) on a missing key.
\<close>

type_synonym ('k, 'v) dict = "('k \<times> 'v) list"

definition dict_contains :: "'k \<Rightarrow> ('k, 'v) dict \<Rightarrow> bool" where
  "dict_contains k d = (k \<in> set (map fst d))"

primrec dict_set :: "'k \<Rightarrow> 'v \<Rightarrow> ('k, 'v) dict \<Rightarrow> ('k, 'v) dict" where
  "dict_set k v [] = [(k, v)]"
| "dict_set k v (p # ps) = (if fst p = k then (k, v) # ps else p # dict_set k v ps)"

primrec dict_del :: "'k \<Rightarrow> ('k, 'v) dict \<Rightarrow> ('k, 'v) dict" where
  "dict_del k [] = []"
| "dict_del k (p # ps) = (if fst p = k then ps else p # dict_del k ps)"

definition dict_pop :: "'k \<Rightarrow> ('k, 'v) dict \<Rightarrow> ('v \<times> ('k, 'v) dict) option" where
  "dict_pop k d = (case map_of d k of None \<Rightarrow> None | Some v \<Rightarrow> Some (v, dict_del k d))"

definition dict_keys :: "('k, 'v) dict \<Rightarrow> 'k list" where
  "dict_keys d = map fst d"

text \<open>The number of entries a dictionary holds for one key.\<close>

definition entries_for :: "'k \<Rightarrow> ('k, 'v) dict \<Rightarrow> nat" where
  "entries_for k d = length (filter (\<lambda>p. fst p = k) d)"

section \<open>\<open>threat_fusion_engine.py\<close>\<close>

text \<open>
  The two arguments are doubles. Every literal is the double Python reads it as, and
  the two products and the sum are each rounded.
\<close>

definition combine_risks :: "real \<Rightarrow> real \<Rightarrow> real \<times> string" where
  "combine_risks network_risk user_risk =
     (let final_risk = fadd (fmul (round_double 0.6) network_risk)
                            (fmul (round_double 0.4) user_risk);
          level = (if final_risk > round_double 0.8 then ''CRITICAL''
                   else if final_risk > round_double 0.6 then ''HIGH''
                   else if final_risk > round_double 0.4 then ''MEDIUM''
                   else ''LOW'')
      in (final_risk, level))"

section \<open>\<open>autonomous_response_agent.py\<close>\<close>

subsection \<open>State of the agent\<close>

text \<open>
  \<open>BlockedIP\<close> is the dataclass of the source. Its \<open>reason\<close> is the f-string
  \<open>Critical threat: Risk {risk_score:.2f}\<close>: the literal part and the number it formats.
\<close>

record BlockedIP =
  b_ip_address :: string
  blocked_at :: time
  b_risk_score :: real
  b_security_group_id :: string
  rule_id :: "string option"
  reason :: "string \<times> real"

text \<open>
  The dictionary \<open>send_alert\<close> appends to \<open>alert_history\<close>; its timestamp is kept as
  the instant that \<open>isoformat()\<close> prints.
\<close>

record alert_entry =
  a_timestamp :: time
  a_ip_address :: string
  a_risk_score :: real
  a_network_risk :: real
  a_user_risk :: real
  a_threat_level :: string
  a_action :: string

record agent_stats =
  total_blocks :: int
  total_unblocks :: int
  total_alerts :: int
  total_rate_limits :: int
  start_time :: time

record agent =
  security_group_id :: string
  region :: string
  block_timeout_minutes :: int
  monitoring_interval :: int
  blocked_ips :: "(string, BlockedIP) dict"
  rate_limited_ips :: "(string, time) dict"
  alert_history :: "alert_entry list"
  stats :: agent_stats

text \<open>
  What a call of the EC2 client does: it returns, raises \<open>ClientError\<close> with an error
  code, or raises something else. The outcome is a parameter of every operation that
  makes the call.
\<close>

datatype ec2_result = Ok | ClientError string | OtherException

subsection \<open>Construction\<close>

text \<open>
  \<open>__init__\<close> stores its four arguments, creates the EC2 client (re-raising what
  \<open>boto3.client\<close> raises) and starts with empty tables and zero counters. Nothing else
  is checked.
\<close>

definition init :: "string \<Rightarrow> string \<Rightarrow> int \<Rightarrow> int \<Rightarrow> exn + unit \<Rightarrow> time \<Rightarrow> exn + agent" where
  "init sg_id reg timeout interval client now =
     (case client of
        Inl e \<Rightarrow> Inl e
      | Inr _ \<Rightarrow> Inr \<lparr> security_group_id = sg_id, region = reg,
                       block_timeout_minutes = timeout, monitoring_interval = interval,
                       blocked_ips = [], rate_limited_ips = [], alert_history = [],
                       stats = \<lparr> total_blocks = 0, total_unblocks = 0, total_alerts = 0,
                                 total_rate_limits = 0, start_time = now \<rparr> \<rparr>)"

subsection \<open>Classification and the four actions\<close>

definition assess_threat_level :: "real \<Rightarrow> string" where
  "assess_threat_level risk_score =
     (if risk_score \<ge> 0.8 then ''CRITICAL''
      else if risk_score \<ge> 0.6 then ''HIGH''
      else if risk_score \<ge> 0.4 then ''MEDIUM''
      else ''LOW'')"

text \<open>\<open>log_threat\<close> writes a log line and changes nothing.\<close>

definition log_threat :: "agent \<Rightarrow> string \<Rightarrow> real \<Rightarrow> real \<Rightarrow> real \<Rightarrow> agent" where
  "log_threat self ip risk_score network_risk user_risk = self"

definition send_alert :: "agent \<Rightarrow> string \<Rightarrow> real \<Rightarrow> real \<Rightarrow> real \<Rightarrow> string \<Rightarrow> time \<Rightarrow> agent" where
  "send_alert self ip risk_score network_risk user_risk threat_level now =
     (let alert = \<lparr> a_timestamp = now, a_ip_address = ip, a_risk_score = risk_score,
                    a_network_risk = network_risk, a_user_risk = user_risk,
                    a_threat_level = threat_level, a_action = ''ALERT_SENT'' \<rparr>
      in self \<lparr> alert_history := alert_history self @ [alert],
                stats := (stats self) \<lparr> total_alerts := total_alerts (stats self) + 1 \<rparr> \<rparr>)"

definition simulate_rate_limiting :: "agent \<Rightarrow> string \<Rightarrow> real \<Rightarrow> time \<Rightarrow> agent" where
  "simulate_rate_limiting self ip risk_score now =
     self \<lparr> rate_limited_ips := dict_set ip now (rate_limited_ips self),
            stats := (stats self) \<lparr> total_rate_limits := total_rate_limits (stats self) + 1 \<rparr> \<rparr>"

text \<open>
  \<open>block_ip_address\<close>: an address already in \<open>blocked_ips\<close> is skipped before the EC2
  call. Otherwise \<open>authorize_security_group_ingress\<close> is called, with outcome \<open>ec2\<close>;
  only when it returns is the entry stored and the counter incremented. Every exception
  is caught and gives \<open>False\<close>.
\<close>

definition block_ip_address ::
  "agent \<Rightarrow> string \<Rightarrow> real \<Rightarrow> real \<Rightarrow> real \<Rightarrow> time \<Rightarrow> ec2_result \<Rightarrow> bool \<times> agent" where
  "block_ip_address self ip risk_score network_risk user_risk now ec2 =
     (if dict_contains ip (blocked_ips self) then (False, self)
      else (case ec2 of
              Ok \<Rightarrow>
                (let blocked_ip = \<lparr> b_ip_address = ip, blocked_at = now,
                                    b_risk_score = risk_score,
                                    b_security_group_id = security_group_id self,
                                    rule_id = None,
                                    reason = (''Critical threat: Risk '', risk_score) \<rparr>
                 in (True, self \<lparr> blocked_ips := dict_set ip blocked_ip (blocked_ips self),
                                  stats := (stats self) \<lparr> total_blocks := total_blocks (stats self) + 1 \<rparr> \<rparr>))
            | ClientError error_code \<Rightarrow>
                (if error_code = ''InvalidPermission.Duplicate'' then (False, self)
                 else (False, self))
            | OtherException \<Rightarrow> (False, self)))"

text \<open>
  \<open>unblock_ip_address\<close>: an address that is not blocked is refused before the EC2 call.
  Otherwise \<open>revoke_security_group_ingress\<close> is called first, with outcome \<open>ec2\<close>; only
  when it returns is the entry popped and the counter incremented.
\<close>

definition unblock_ip_address :: "agent \<Rightarrow> string \<Rightarrow> ec2_result \<Rightarrow> bool \<times> agent" where
  "unblock_ip_address self ip ec2 =
     (if \<not> dict_contains ip (blocked_ips self) then (False, self)
      else (case ec2 of
              Ok \<Rightarrow>
                (case dict_pop ip (blocked_ips self) of
                   None \<Rightarrow> (False, self)
                 | Some (blocked_info, rest) \<Rightarrow>
                     (True, self \<lparr> blocked_ips := rest,
                                   stats := (stats self) \<lparr> total_unblocks := total_unblocks (stats self) + 1 \<rparr> \<rparr>))
            | ClientError error_code \<Rightarrow> (False, self)
            | OtherException \<Rightarrow> (False, self)))"

text \<open>
  \<open>check_and_unblock_expired\<close>: one pass over \<open>blocked_ips\<close> collects the addresses
  whose age exceeds the timeout, a second loop unblocks them in that order. The first
  loop builds the \<open>timedelta\<close> of the timeout once for every entry, so on a registry that
  is not empty a timeout no \<open>timedelta\<close> can hold makes it raise before anything is
  unblocked. \<open>revoke\<close> gives the outcome of the EC2 call for each address. The result is
  the exception that left the function, if any, and the agent.
\<close>

fun collect_expired :: "int \<Rightarrow> time \<Rightarrow> (string, BlockedIP) dict \<Rightarrow> exn + string list" where
  "collect_expired m current_time [] = Inr []"
| "collect_expired m current_time ((ip, blocked_info) # rest) =
     (case timedelta_minutes m of
        Inl e \<Rightarrow> Inl e
      | Inr limit \<Rightarrow>
          (case collect_expired m current_time rest of
             Inl e \<Rightarrow> Inl e
           | Inr ips \<Rightarrow>
               Inr (if current_time - blocked_at blocked_info > limit then ip # ips else ips)))"

definition expired_ips :: "agent \<Rightarrow> time \<Rightarrow> exn + string list" where
  "expired_ips self current_time =
     collect_expired (block_timeout_minutes self) current_time (blocked_ips self)"

fun unblock_each :: "(string \<Rightarrow> ec2_result) \<Rightarrow> string list \<Rightarrow> agent \<Rightarrow> agent" where
  "unblock_each revoke [] self = self"
| "unblock_each revoke (ip # ips) self =
     unblock_each revoke ips (snd (unblock_ip_address self ip (revoke ip)))"

definition check_and_unblock_expired ::
  "agent \<Rightarrow> time \<Rightarrow> (string \<Rightarrow> ec2_result) \<Rightarrow> exn option \<times> agent" where
  "check_and_unblock_expired self current_time revoke =
     (case expired_ips self current_time of
        Inl e \<Rightarrow> (Some e, self)
      | Inr ips \<Rightarrow> (None, unblock_each revoke ips self))"

definition take_action ::
  "agent \<Rightarrow> string \<Rightarrow> real \<Rightarrow> real \<Rightarrow> real \<Rightarrow> time \<Rightarrow> ec2_result \<Rightarrow> string \<times> agent" where
  "take_action self ip risk_score network_risk user_risk now ec2 =
     (let threat_level = assess_threat_level risk_score in
      if risk_score < 0.4 then
        (''LOG'', log_threat self ip risk_score network_risk user_risk)
      else if 0.4 \<le> risk_score \<and> risk_score < 0.6 then
        (''ALERT'', send_alert self ip risk_score network_risk user_risk threat_level now)
      else if 0.6 \<le> risk_score \<and> risk_score < 0.8 then
        (''RATE_LIMIT'',
         send_alert (simulate_rate_limiting self ip risk_score now)
           ip risk_score network_risk user_risk threat_level now)
      else
        (case block_ip_address self ip risk_score network_risk user_risk now ec2 of
           (True, self') \<Rightarrow>
             (''BLOCK'', send_alert self' ip risk_score network_risk user_risk threat_level now)
         | (False, self') \<Rightarrow> (''BLOCK_FAILED'', self')))"

subsection \<open>Statistics\<close>

record statistics =
  uptime_seconds :: real
  st_total_blocks :: int
  st_total_unblocks :: int
  st_total_alerts :: int
  st_total_rate_limits :: int
  currently_blocked :: int
  st_blocked_ips :: "string list"

definition get_statistics :: "agent \<Rightarrow> time \<Rightarrow> statistics" where
  "get_statistics self now =
     \<lparr> uptime_seconds = real_of_int (now - start_time (stats self)) / 1000000,
       st_total_blocks = total_blocks (stats self),
       st_total_unblocks = total_unblocks (stats self),
       st_total_alerts = total_alerts (stats self),
       st_total_rate_limits = total_rate_limits (stats self),
       currently_blocked = int (length (blocked_ips self)),
       st_blocked_ips = dict_keys (blocked_ips self) \<rparr>"

subsection \<open>One monitoring cycle\<close>

text \<open>
  The entries the two engines return are dictionaries; a key that is missing makes the
  subscript raise \<open>KeyError\<close>, so every field is optional here.
\<close>

record net_entry =
  n_ip :: "string option"
  n_network_risk :: "real option"

record user_entry =
  u_ip :: "string option"
  u_user_risk :: "real option"

text \<open>
  \<open>next((u for u in user_results if u["ip"] == ip), None)\<close>: the first entry whose
  address is \<open>ip\<close>; the generator reads \<open>u["ip"]\<close> of every entry up to that one.
\<close>

fun matched_user :: "user_entry list \<Rightarrow> string \<Rightarrow> exn + user_entry option" where
  "matched_user [] ip = Inr None"
| "matched_user (u # us) ip =
     (case u_ip u of
        None \<Rightarrow> Inl (KeyError ''ip'')
      | Some i \<Rightarrow> if i = ip then Inr (Some u) else matched_user us ip)"

text \<open>\<open>matched_user["user_risk"] if matched_user else 0.1\<close>\<close>

definition user_risk_of :: "user_entry option \<Rightarrow> exn + real" where
  "user_risk_of m =
     (case m of
        None \<Rightarrow> Inr 0.1
      | Some u \<Rightarrow> (case u_user_risk u of
                     None \<Rightarrow> Inl (KeyError ''user_risk'')
                   | Some r \<Rightarrow> Inr r))"

text \<open>The fusion function is an argument of the cycle, and may raise.\<close>

type_synonym fusion = "real \<Rightarrow> real \<Rightarrow> exn + (real \<times> string)"

text \<open>
  \<open>combine_risks\<close> as the fusion function of the agent: the two risks are the doubles
  nearest to them, and the fused risk is handed on as the agent reads it.
\<close>

definition fusion_combine_risks :: fusion where
  "fusion_combine_risks network_risk user_risk =
     (case combine_risks (round_double network_risk) (round_double user_risk) of
        (final_risk, level) \<Rightarrow> Inr (reading final_risk, level))"

text \<open>The body of the \<open>for net in network_results\<close> loop.\<close>

definition process_entry ::
  "agent \<Rightarrow> user_entry list \<Rightarrow> fusion \<Rightarrow> net_entry \<Rightarrow> time \<Rightarrow> ec2_result \<Rightarrow> exn + (string \<times> agent)" where
  "process_entry self user_results fusion_function net now ec2 =
     (case n_ip net of
        None \<Rightarrow> Inl (KeyError ''ip'')
      | Some ip \<Rightarrow>
     (case n_network_risk net of
        None \<Rightarrow> Inl (KeyError ''network_risk'')
      | Some network_risk \<Rightarrow>
     (case matched_user user_results ip of
        Inl e \<Rightarrow> Inl e
      | Inr m \<Rightarrow>
     (case user_risk_of m of
        Inl e \<Rightarrow> Inl e
      | Inr user_risk \<Rightarrow>
     (case fusion_function network_risk user_risk of
        Inl e \<Rightarrow> Inl e
      | Inr (final_risk, threat_level) \<Rightarrow>
          Inr (take_action self ip final_risk network_risk user_risk now ec2))))))"

text \<open>
  What the world does during one cycle: the clock and the outcome of the EC2
  \<open>authorize\<close> call in the i-th iteration of the loop, the outcome of \<open>revoke\<close> for each
  address in the sweep, and the clock at the sweep.
\<close>

record cycle_env =
  clock :: "nat \<Rightarrow> time"
  authorize :: "nat \<Rightarrow> ec2_result"
  revoke_result :: "string \<Rightarrow> ec2_result"
  sweep_time :: time

text \<open>
  The loop. An exception leaves it at once: the agent keeps what the earlier iterations
  did to it, and the exception travels on with it.
\<close>

fun process_entries ::
  "cycle_env \<Rightarrow> user_entry list \<Rightarrow> fusion \<Rightarrow> nat \<Rightarrow> net_entry list \<Rightarrow> agent \<Rightarrow> exn option \<times> agent" where
  "process_entries env user_results fusion_function i [] self = (None, self)"
| "process_entries env user_results fusion_function i (net # rest) self =
     (case process_entry self user_results fusion_function net (clock env i) (authorize env i) of
        Inl e \<Rightarrow> (Some e, self)
      | Inr (action, self') \<Rightarrow> process_entries env user_results fusion_function (Suc i) rest self')"

text \<open>
  \<open>run_monitoring_cycle\<close>: the whole body stands in one \<open>try\<close>; its \<open>except Exception\<close>
  logs the exception and returns, whether it came from a \<open>detect()\<close> call, from the loop
  or from the sweep. The result is the exception that was logged, if any, and the agent.
  \<open>ids\<close> and \<open>ueba\<close> are what the two \<open>detect()\<close> calls do.
\<close>

definition run_monitoring_cycle ::
  "agent \<Rightarrow> exn + net_entry list \<Rightarrow> exn + user_entry list \<Rightarrow> fusion \<Rightarrow> cycle_env \<Rightarrow> exn option \<times> agent" where
  "run_monitoring_cycle self ids ueba fusion_function env =
     (case ids of
        Inl e \<Rightarrow> (Some e, self)
      | Inr network_results \<Rightarrow>
     (case ueba of
        Inl e \<Rightarrow> (Some e, self)
      | Inr user_results \<Rightarrow>
     (case process_entries env user_results fusion_function 0 network_results self of
        (Some e, self') \<Rightarrow> (Some e, self')
      | (None, self') \<Rightarrow>
          check_and_unblock_expired self' (sweep_time env) (revoke_result env))))"

section \<open>\<open>alert_system.py\<close>: the history and the e-mail rate limit\<close>

text \<open>
  The other alert history of the repository belongs to \<open>AlertSystem\<close>, which the agent
  does not use. Of its configuration the three values read below are kept. The message
  of an alert is modelled by its threat level, which determines it.
\<close>

record Alert =
  al_timestamp :: time
  al_threat_level :: string
  al_final_risk :: real
  al_network_risk :: real
  al_user_risk :: real
  al_network_bytes :: real
  al_network_packets :: real
  al_ip_address :: string

record alert_config =
  email_enabled :: bool
  email_threshold :: real
  max_emails_per_hour :: int

record AlertSystem =
  config :: alert_config
  as_alert_history :: "Alert list"

text \<open>\<open>now.replace(minute=0, second=0, microsecond=0)\<close>\<close>

definition start_of_hour :: "time \<Rightarrow> time" where
  "start_of_hour now = now - now mod 3600000000"

definition check_rate_limit :: "AlertSystem \<Rightarrow> time \<Rightarrow> bool" where
  "check_rate_limit self now =
     (let hour_ago = start_of_hour now;
          recent_emails = filter (\<lambda>a. al_timestamp a \<ge> hour_ago \<and>
                                       al_final_risk a \<ge> email_threshold (config self))
                            (as_alert_history self)
      in int (length recent_emails) < max_emails_per_hour (config self))"

text \<open>
  \<open>create_alert\<close> appends the alert to the history and then processes it;
  \<open>process_alert\<close> calls \<open>send_email_alert\<close> for a risk at or above the e-mail threshold,
  and that consults \<open>check_rate_limit\<close> before it talks to the mail server. The result is
  the system and whether the mail server is contacted.
\<close>

definition create_alert ::
  "AlertSystem \<Rightarrow> string \<Rightarrow> real \<Rightarrow> real \<Rightarrow> real \<Rightarrow> real \<Rightarrow> real \<Rightarrow> time \<Rightarrow> AlertSystem \<times> bool" where
  "create_alert self threat_level final_risk network_risk user_risk network_bytes network_packets now =
     (let alert = \<lparr> al_timestamp = now, al_threat_level = threat_level,
                    al_final_risk = final_risk, al_network_risk = network_risk,
                    al_user_risk = user_risk, al_network_bytes = network_bytes,
                    al_network_packets = network_packets, al_ip_address = ''EC2_INSTANCE'' \<rparr>;
          self' = self \<lparr> as_alert_history := as_alert_history self @ [alert] \<rparr>
      in (self', final_risk \<ge> email_threshold (config self') \<and> email_enabled (config self')
                 \<and> check_rate_limit self' now))"

section \<open>States the agent can be in\<close>

text \<open>
  The states of an agent from its construction on, under any sequence of the operations
  that change it, whatever the clock and the EC2 service do.
\<close>

inductive reachable :: "agent \<Rightarrow> bool" where
  r_init: "init sg_id reg timeout interval (Inr ()) now = Inr a \<Longrightarrow> reachable a"
| r_take_action: "reachable a \<Longrightarrow> reachable (snd (take_action a ip risk_score network_risk user_risk now ec2))"
| r_unblock: "reachable a \<Longrightarrow> reachable (snd (unblock_ip_address a ip ec2))"
| r_sweep: "reachable a \<Longrightarrow> reachable (snd (check_and_unblock_expired a now revoke))"
| r_cycle: "reachable a \<Longrightarrow> reachable (snd (run_monitoring_cycle a ids ueba fusion_function env))"

text \<open>At most one entry of the block registry for each address.\<close>

definition unique_entries :: "agent \<Rightarrow> bool" where
  "unique_entries self = distinct (dict_keys (blocked_ips self))"

text \<open>The registry holds as many entries as blocks have not been undone.\<close>

definition counters_match :: "agent \<Rightarrow> bool" where
  "counters_match self =
     (int (length (blocked_ips self)) = total_blocks (stats self) - total_unblocks (stats self))"

section \<open>Sequences of calls and the agents of the examples\<close>

text \<open>Two calls of \<open>take_action\<close> in a row for the same address and score.\<close>

definition take_action_twice ::
  "agent \<Rightarrow> string \<Rightarrow> real \<Rightarrow> real \<Rightarrow> real \<Rightarrow> time \<Rightarrow> ec2_result \<Rightarrow> time \<Rightarrow> ec2_result \<Rightarrow> agent" where
  "take_action_twice self ip risk_score network_risk user_risk t1 e1 t2 e2 =
     snd (take_action (snd (take_action self ip risk_score network_risk user_risk t1 e1))
            ip risk_score network_risk user_risk t2 e2)"

text \<open>
  Any number of calls of \<open>take_action\<close>, each with its arguments, its clock and the
  outcome of its EC2 call; the result is the actions returned and the agent.
\<close>

record call =
  c_ip :: string
  c_risk_score :: real
  c_network_risk :: real
  c_user_risk :: real
  c_now :: time
  c_ec2 :: ec2_result

fun take_actions :: "agent \<Rightarrow> call list \<Rightarrow> string list \<times> agent" where
  "take_actions self [] = ([], self)"
| "take_actions self (c # cs) =
     (case take_action self (c_ip c) (c_risk_score c) (c_network_risk c) (c_user_risk c)
             (c_now c) (c_ec2 c) of
        (action, self') \<Rightarrow>
          (case take_actions self' cs of (actions, self'') \<Rightarrow> (action # actions, self'')))"

text \<open>The actions that send an alert.\<close>

definition alerting :: "string \<Rightarrow> bool" where
  "alerting action = (action = ''ALERT'' \<or> action = ''RATE_LIMIT'' \<or> action = ''BLOCK'')"

text \<open>
  The agent the test suite constructs (\<open>sg-test-only\<close>, 10 minutes, 60 seconds), at
  time \<open>t0\<close>, and that agent after it has blocked \<open>203.0.113.42\<close> at \<open>t0\<close>.
\<close>

definition test_agent :: "time \<Rightarrow> agent" where
  "test_agent t0 =
     \<lparr> security_group_id = ''sg-test-only'', region = ''ap-south-1'',
       block_timeout_minutes = 10, monitoring_interval = 60,
       blocked_ips = [], rate_limited_ips = [], alert_history = [],
       stats = \<lparr> total_blocks = 0, total_unblocks = 0, total_alerts = 0,
                 total_rate_limits = 0, start_time = t0 \<rparr> \<rparr>"

definition blocked_agent :: "time \<Rightarrow> agent" where
  "blocked_agent t0 = snd (take_action (test_agent t0) ''203.0.113.42'' 0.92 0.95 0.85 t0 Ok)"

text \<open>
  The same agent constructed with a block timeout of -2000000000000 minutes, which no
  \<open>timedelta\<close> can hold, after it has blocked \<open>203.0.113.42\<close> at time 0.
\<close>

definition negative_timeout_agent :: agent where
  "negative_timeout_agent =
     snd (take_action ((test_agent 0) \<lparr> block_timeout_minutes := - 2000000000000 \<rparr>)
            ''203.0.113.42'' 0.92 0.95 0.85 0 Ok)"

text \<open>
  A cycle in which the first network entry lacks its \<open>network_risk\<close> key and the second
  is a CRITICAL threat from \<open>198.51.100.7\<close> (network risk 1.0, user risk 1.0, fused risk
  1.0). The cycle runs 10 minutes and 1 second after time 0 and the EC2 service accepts
  every call.
\<close>

definition entry_without_risk :: net_entry where
  "entry_without_risk = \<lparr> n_ip = Some ''192.0.2.5'', n_network_risk = None \<rparr>"

definition critical_entry :: net_entry where
  "critical_entry = \<lparr> n_ip = Some ''198.51.100.7'', n_network_risk = Some 1 \<rparr>"

definition critical_user :: user_entry where
  "critical_user = \<lparr> u_ip = Some ''198.51.100.7'', u_user_risk = Some 1 \<rparr>"

definition late_env :: cycle_env where
  "late_env = \<lparr> clock = (\<lambda>i. seconds 601), authorize = (\<lambda>i. Ok),
                revoke_result = (\<lambda>ip. Ok), sweep_time = seconds 601 \<rparr>"

text \<open>A MEDIUM call of the test suite (risk 0.50), made \<open>k\<close> minutes after time 0.\<close>

definition medium_call :: "int \<Rightarrow> call" where
  "medium_call k = \<lparr> c_ip = ''10.0.1.101'', c_risk_score = 0.5, c_network_risk = 0.55,
                     c_user_risk = 0.45, c_now = minutes k, c_ec2 = Ok \<rparr>"

text \<open>
  An \<open>AlertSystem\<close> whose e-mail limit is 2 an hour, and the HIGH alert of its own test
  (risk 0.7), created \<open>k\<close> minutes after time 0.
\<close>

definition limited_system :: AlertSystem where
  "limited_system =
     \<lparr> config = \<lparr> email_enabled = True, email_threshold = 0.6, max_emails_per_hour = 2 \<rparr>,
       as_alert_history = [] \<rparr>"

definition create_high_alert :: "AlertSystem \<Rightarrow> int \<Rightarrow> AlertSystem \<times> bool" where
  "create_high_alert self k = create_alert self ''HIGH'' 0.7 0.8 0.3 500000 5000 (minutes k)"

section \<open>Classification\<close>

text \<open>
  C5. For every real risk score, in or out of [0, 1], \<open>assess_threat_level\<close> returns
  exactly one of the four levels, with inclusive lower bounds: CRITICAL exactly from 0.8
  up, HIGH exactly on [0.6, 0.8), MEDIUM exactly on [0.4, 0.6), LOW exactly below 0.4.
\<close>

theorem assess_threat_level_bands:
  "(assess_threat_level r = ''CRITICAL'') = (r \<ge> 0.8) \<and>
   (assess_threat_level r = ''HIGH'') = (0.6 \<le> r \<and> r < 0.8) \<and>
   (assess_threat_level r = ''MEDIUM'') = (0.4 \<le> r \<and> r < 0.6) \<and>
   (assess_threat_level r = ''LOW'') = (r < 0.4) \<and>
   assess_threat_level r \<in> {''LOW'', ''MEDIUM'', ''HIGH'', ''CRITICAL''}"
  by (simp add: assess_threat_level_def)

section \<open>Facts about dictionaries\<close>


lemma dict_contains_set [simp]: "dict_contains k (dict_set k v d)"
  by (induction d) (auto simp: dict_contains_def)

lemma keys_dict_set_new: "\<not> dict_contains k d \<Longrightarrow> map fst (dict_set k v d) = map fst d @ [k]"
  by (induction d) (auto simp: dict_contains_def)

lemma keys_dict_set_old: "dict_contains k d \<Longrightarrow> map fst (dict_set k v d) = map fst d"
  by (induction d) (auto simp: dict_contains_def)

lemma distinct_dict_set: "distinct (map fst d) \<Longrightarrow> distinct (map fst (dict_set k v d))"
  by (cases "dict_contains k d") (auto simp: keys_dict_set_new keys_dict_set_old dict_contains_def)

lemma length_dict_set_new: "\<not> dict_contains k d \<Longrightarrow> length (dict_set k v d) = Suc (length d)"
  by (induction d) (auto simp: dict_contains_def)

lemma set_dict_del_subset: "set (dict_del k d) \<subseteq> set d"
  by (induction d) auto

lemma distinct_dict_del: "distinct (map fst d) \<Longrightarrow> distinct (map fst (dict_del k d))"
proof (induction d)
  case Nil
  then show ?case by simp
next
  case (Cons p ps)
  have "fst ` set (dict_del k ps) \<subseteq> fst ` set ps"
    using set_dict_del_subset [of k ps] by blast
  with Cons show ?case by auto
qed

lemma length_dict_del: "dict_contains k d \<Longrightarrow> Suc (length (dict_del k d)) = length d"
  by (induction d) (auto simp: dict_contains_def)

lemma dict_del_absent: "\<not> dict_contains k d \<Longrightarrow> dict_del k d = d"
  by (induction d) (auto simp: dict_contains_def)

lemma dict_del_removes: "distinct (map fst d) \<Longrightarrow> \<not> dict_contains k (dict_del k d)"
  by (induction d) (auto simp: dict_contains_def)

lemma dict_del_other: "k' \<noteq> k \<Longrightarrow> dict_contains k' (dict_del k d) = dict_contains k' d"
  by (induction d) (auto simp: dict_contains_def)

lemma dict_pop_present: "dict_contains k d \<Longrightarrow> \<exists>v. dict_pop k d = Some (v, dict_del k d)"
proof -
  assume "dict_contains k d"
  then have "k \<in> fst ` set d" by (simp add: dict_contains_def)
  then obtain v where "map_of d k = Some v"
    by (metis domD dom_map_of_conv_image_fst)
  then show ?thesis by (simp add: dict_pop_def)
qed

lemma entries_for_distinct:
  "distinct (map fst d) \<Longrightarrow> entries_for k d = (if dict_contains k d then 1 else 0)"
proof (induction d)
  case Nil
  then show ?case by (simp add: entries_for_def dict_contains_def)
next
  case (Cons p ps)
  then show ?case
    by (force simp: entries_for_def dict_contains_def filter_empty_conv)
qed

lemma entries_for_absent: "\<not> dict_contains k d \<Longrightarrow> entries_for k d = 0"
  by (auto simp: entries_for_def dict_contains_def filter_empty_conv)

lemma entries_for_dict_set_new:
  "\<not> dict_contains k d \<Longrightarrow> entries_for k (dict_set k v d) = 1"
  by (induction d) (auto simp: entries_for_def dict_contains_def)


subsection \<open>The single operations\<close>

lemma block_already_blocked:
  "dict_contains ip (blocked_ips s) \<Longrightarrow> block_ip_address s ip r n u t e = (False, s)"
  by (simp add: block_ip_address_def)

lemma block_refused:
  "e \<noteq> Ok \<Longrightarrow> block_ip_address s ip r n u t e = (False, s)"
  by (cases e) (simp_all add: block_ip_address_def)

lemma block_accepted:
  "\<not> dict_contains ip (blocked_ips s) \<Longrightarrow>
   block_ip_address s ip r n u t Ok =
     (True, s \<lparr> blocked_ips := dict_set ip \<lparr> b_ip_address = ip, blocked_at = t, b_risk_score = r,
                   b_security_group_id = security_group_id s, rule_id = None,
                   reason = (''Critical threat: Risk '', r) \<rparr> (blocked_ips s),
                 stats := (stats s) \<lparr> total_blocks := total_blocks (stats s) + 1 \<rparr> \<rparr>)"
  by (simp add: block_ip_address_def)

lemma block_cases:
  obtains (skip) "block_ip_address s ip r n u t e = (False, s)"
  | (stored) "\<not> dict_contains ip (blocked_ips s)" "e = Ok"
      "block_ip_address s ip r n u t e =
        (True, s \<lparr> blocked_ips := dict_set ip \<lparr> b_ip_address = ip, blocked_at = t, b_risk_score = r,
                   b_security_group_id = security_group_id s, rule_id = None,
                   reason = (''Critical threat: Risk '', r) \<rparr> (blocked_ips s),
                 stats := (stats s) \<lparr> total_blocks := total_blocks (stats s) + 1 \<rparr> \<rparr>)"
proof (cases "dict_contains ip (blocked_ips s) \<or> e \<noteq> Ok")
  case True
  then show ?thesis using skip block_already_blocked block_refused by blast
next
  case False
  then show ?thesis using stored block_accepted by blast
qed

lemma unblock_not_blocked:
  "\<not> dict_contains ip (blocked_ips s) \<Longrightarrow> unblock_ip_address s ip e = (False, s)"
  by (simp add: unblock_ip_address_def)

lemma unblock_refused:
  "e \<noteq> Ok \<Longrightarrow> unblock_ip_address s ip e = (False, s)"
  by (cases e) (simp_all add: unblock_ip_address_def)

lemma unblock_accepted:
  assumes "dict_contains ip (blocked_ips s)"
  shows "unblock_ip_address s ip Ok =
     (True, s \<lparr> blocked_ips := dict_del ip (blocked_ips s),
                 stats := (stats s) \<lparr> total_unblocks := total_unblocks (stats s) + 1 \<rparr> \<rparr>)"
proof -
  obtain v where "dict_pop ip (blocked_ips s) = Some (v, dict_del ip (blocked_ips s))"
    using dict_pop_present [OF assms] by blast
  with assms show ?thesis by (simp add: unblock_ip_address_def)
qed

lemma unblock_cases:
  obtains (skip) "unblock_ip_address s ip e = (False, s)"
  | (removed) "dict_contains ip (blocked_ips s)" "e = Ok"
      "unblock_ip_address s ip e =
        (True, s \<lparr> blocked_ips := dict_del ip (blocked_ips s),
                 stats := (stats s) \<lparr> total_unblocks := total_unblocks (stats s) + 1 \<rparr> \<rparr>)"
proof (cases "dict_contains ip (blocked_ips s) \<and> e = Ok")
  case True
  then show ?thesis using removed unblock_accepted by blast
next
  case False
  then show ?thesis using skip unblock_not_blocked unblock_refused by blast
qed

lemma send_alert_blocked_ips [simp]: "blocked_ips (send_alert s ip r n u l t) = blocked_ips s"
  by (simp add: send_alert_def)

lemma send_alert_blocks [simp]:
  "total_blocks (stats (send_alert s ip r n u l t)) = total_blocks (stats s)"
  "total_unblocks (stats (send_alert s ip r n u l t)) = total_unblocks (stats s)"
  "total_rate_limits (stats (send_alert s ip r n u l t)) = total_rate_limits (stats s)"
  "total_alerts (stats (send_alert s ip r n u l t)) = total_alerts (stats s) + 1"
  "length (alert_history (send_alert s ip r n u l t)) = Suc (length (alert_history s))"
  by (simp_all add: send_alert_def)

lemma rate_limiting_fields [simp]:
  "blocked_ips (simulate_rate_limiting s ip r t) = blocked_ips s"
  "alert_history (simulate_rate_limiting s ip r t) = alert_history s"
  "total_blocks (stats (simulate_rate_limiting s ip r t)) = total_blocks (stats s)"
  "total_unblocks (stats (simulate_rate_limiting s ip r t)) = total_unblocks (stats s)"
  "total_alerts (stats (simulate_rate_limiting s ip r t)) = total_alerts (stats s)"
  "total_rate_limits (stats (simulate_rate_limiting s ip r t)) = total_rate_limits (stats s) + 1"
  by (simp_all add: simulate_rate_limiting_def)

lemma take_action_low: "r < 0.4 \<Longrightarrow> take_action s ip r n u t e = (''LOG'', s)"
  by (simp add: take_action_def log_threat_def)

lemma take_action_medium:
  "0.4 \<le> r \<Longrightarrow> r < 0.6 \<Longrightarrow>
   take_action s ip r n u t e = (''ALERT'', send_alert s ip r n u ''MEDIUM'' t)"
  by (simp add: take_action_def assess_threat_level_def)

lemma take_action_high:
  "0.6 \<le> r \<Longrightarrow> r < 0.8 \<Longrightarrow>
   take_action s ip r n u t e =
     (''RATE_LIMIT'', send_alert (simulate_rate_limiting s ip r t) ip r n u ''HIGH'' t)"
  by (simp add: take_action_def assess_threat_level_def)

lemma take_action_critical:
  "0.8 \<le> r \<Longrightarrow>
   take_action s ip r n u t e =
     (case block_ip_address s ip r n u t e of
        (True, s') \<Rightarrow> (''BLOCK'', send_alert s' ip r n u ''CRITICAL'' t)
      | (False, s') \<Rightarrow> (''BLOCK_FAILED'', s'))"
  by (simp add: take_action_def assess_threat_level_def)

lemma take_action_critical_skip:
  "0.8 \<le> r \<Longrightarrow> block_ip_address s ip r n u t e = (False, s) \<Longrightarrow>
   take_action s ip r n u t e = (''BLOCK_FAILED'', s)"
  by (simp add: take_action_critical)

lemma take_action_critical_stored:
  "0.8 \<le> r \<Longrightarrow> block_ip_address s ip r n u t e = (True, s') \<Longrightarrow>
   take_action s ip r n u t e = (''BLOCK'', send_alert s' ip r n u ''CRITICAL'' t)"
  by (simp add: take_action_critical)


subsection \<open>Invariants along the loops\<close>

lemma cycle_completes:
  "process_entries env us f 0 nets s = (None, s2) \<Longrightarrow>
   run_monitoring_cycle s (Inr nets) (Inr us) f env
     = check_and_unblock_expired s2 (sweep_time env) (revoke_result env)"
  by (simp add: run_monitoring_cycle_def)

lemma sweep_cases:
  obtains (raised) ex where "expired_ips s now = Inl ex"
      "check_and_unblock_expired s now rv = (Some ex, s)"
  | (swept) ips where "expired_ips s now = Inr ips"
      "check_and_unblock_expired s now rv = (None, unblock_each rv ips s)"
  by (cases "expired_ips s now") (simp_all add: check_and_unblock_expired_def)

lemma unblock_each_preserves:
  assumes step: "\<And>s ip e. I s \<Longrightarrow> I (snd (unblock_ip_address s ip e))"
  shows "I s \<Longrightarrow> I (unblock_each rv ips s)"
  by (induction ips arbitrary: s) (simp_all add: step)

lemma process_entry_preserves:
  assumes step: "\<And>s ip r n u t e. I s \<Longrightarrow> I (snd (take_action s ip r n u t e))"
    and "I s" and "process_entry s us f net t e = Inr (a, s')"
  shows "I s'"
proof -
  from assms(3) have "\<exists>ip r n u. take_action s ip r n u t e = (a, s')"
    by (auto simp: process_entry_def split: option.splits sum.splits)
  then obtain ip r n u where "take_action s ip r n u t e = (a, s')" by blast
  then have "s' = snd (take_action s ip r n u t e)" by simp
  with step [OF assms(2)] show ?thesis by simp
qed

lemma process_entries_preserves:
  assumes step: "\<And>s ip r n u t e. I s \<Longrightarrow> I (snd (take_action s ip r n u t e))"
  shows "I s \<Longrightarrow> I (snd (process_entries env us f i nets s))"
proof (induction nets arbitrary: s i)
  case Nil
  then show ?case by simp
next
  case (Cons net rest)
  show ?case
  proof (cases "process_entry s us f net (clock env i) (authorize env i)")
    case (Inl e)
    with Cons.prems show ?thesis by simp
  next
    case (Inr p)
    obtain a s' where p: "p = (a, s')" by (cases p)
    have "I s'" using process_entry_preserves [of I s us f net _ _ a s'] step Cons.prems Inr p
      by blast
    from Cons.IH [OF this] Inr p show ?thesis by simp
  qed
qed

lemma sweep_preserves:
  assumes step: "\<And>s ip e. I s \<Longrightarrow> I (snd (unblock_ip_address s ip e))"
    and "I s"
  shows "I (snd (check_and_unblock_expired s now rv))"
proof (cases rule: sweep_cases [of s now rv])
  case (raised ex)
  with assms(2) show ?thesis by simp
next
  case (swept ips)
  with unblock_each_preserves [of I s rv ips] step assms(2) show ?thesis by simp
qed

lemma cycle_preserves:
  assumes act: "\<And>s ip r n u t e. I s \<Longrightarrow> I (snd (take_action s ip r n u t e))"
    and unb: "\<And>s ip e. I s \<Longrightarrow> I (snd (unblock_ip_address s ip e))"
    and "I s"
  shows "I (snd (run_monitoring_cycle s ids ueba f env))"
proof (cases ids)
  case (Inl e)
  with assms(3) show ?thesis by (simp add: run_monitoring_cycle_def)
next
  case ids: (Inr nets)
  show ?thesis
  proof (cases ueba)
    case (Inl e)
    with ids assms(3) show ?thesis by (simp add: run_monitoring_cycle_def)
  next
    case ueba: (Inr us)
    obtain x s' where pe: "process_entries env us f 0 nets s = (x, s')"
      by (cases "process_entries env us f 0 nets s")
    have s': "I s'"
      using process_entries_preserves [of I s env us f 0 nets] act assms(3) pe by simp
    then have "I (snd (check_and_unblock_expired s' (sweep_time env) (revoke_result env)))"
      using unb by (rule sweep_preserves [rotated])
    with s' ids ueba pe show ?thesis
      by (cases x) (simp_all add: run_monitoring_cycle_def)
  qed
qed

subsection \<open>At most one entry for each address\<close>

lemma unique_block: "unique_entries s \<Longrightarrow> unique_entries (snd (block_ip_address s ip r n u t e))"
  by (cases rule: block_cases [of s ip r n u t e])
     (simp_all add: unique_entries_def dict_keys_def distinct_dict_set)

lemma unique_unblock: "unique_entries s \<Longrightarrow> unique_entries (snd (unblock_ip_address s ip e))"
  by (cases rule: unblock_cases [of s ip e])
     (simp_all add: unique_entries_def dict_keys_def distinct_dict_del)

lemma unique_send_alert [simp]: "unique_entries (send_alert s ip r n u l t) = unique_entries s"
  by (simp add: unique_entries_def)

lemma unique_rate_limiting [simp]:
  "unique_entries (simulate_rate_limiting s ip r t) = unique_entries s"
  by (simp add: unique_entries_def)

lemma unique_take_action:
  assumes "unique_entries s"
  shows "unique_entries (snd (take_action s ip r n u t e))"
proof -
  consider "r < 0.4" | "0.4 \<le> r" "r < 0.6" | "0.6 \<le> r" "r < 0.8" | "0.8 \<le> r"
    by linarith
  then show ?thesis
  proof cases
    case 1
    with assms show ?thesis by (simp add: take_action_low)
  next
    case 2
    with assms show ?thesis by (simp add: take_action_medium)
  next
    case 3
    with assms show ?thesis by (simp add: take_action_high)
  next
    case 4
    obtain b s' where b: "block_ip_address s ip r n u t e = (b, s')"
      by (cases "block_ip_address s ip r n u t e")
    with unique_block [OF assms, of ip r n u t e] have "unique_entries s'" by simp
    with 4 b show ?thesis by (cases b) (simp_all add: take_action_critical)
  qed
qed

lemma unique_sweep:
  "unique_entries s \<Longrightarrow> unique_entries (snd (check_and_unblock_expired s t rv))"
  using sweep_preserves [of unique_entries] unique_unblock by blast

lemma unique_cycle:
  "unique_entries s \<Longrightarrow> unique_entries (snd (run_monitoring_cycle s ids ueba f env))"
  using cycle_preserves [of unique_entries] unique_take_action unique_unblock by blast

lemma unique_init: "init sg reg tm mi c t0 = Inr a \<Longrightarrow> unique_entries a"
  by (auto simp: init_def unique_entries_def dict_keys_def split: sum.splits)

lemma reachable_unique: "reachable s \<Longrightarrow> unique_entries s"
  by (induction rule: reachable.induct)
     (simp_all add: unique_init unique_take_action unique_unblock unique_sweep unique_cycle)

subsection \<open>Entries and counters\<close>

lemma counters_block: "counters_match s \<Longrightarrow> counters_match (snd (block_ip_address s ip r n u t e))"
  by (cases rule: block_cases [of s ip r n u t e])
     (simp_all add: counters_match_def length_dict_set_new)

lemma counters_unblock: "counters_match s \<Longrightarrow> counters_match (snd (unblock_ip_address s ip e))"
proof (cases rule: unblock_cases [of s ip e])
  case skip
  assume "counters_match s"
  with skip show ?thesis by simp
next
  case removed
  assume "counters_match s"
  with removed length_dict_del [OF removed(1)] show ?thesis
    by (simp add: counters_match_def)
qed

lemma counters_send_alert [simp]: "counters_match (send_alert s ip r n u l t) = counters_match s"
  by (simp add: counters_match_def)

lemma counters_rate_limiting [simp]:
  "counters_match (simulate_rate_limiting s ip r t) = counters_match s"
  by (simp add: counters_match_def)

lemma counters_take_action:
  assumes "counters_match s"
  shows "counters_match (snd (take_action s ip r n u t e))"
proof -
  consider "r < 0.4" | "0.4 \<le> r" "r < 0.6" | "0.6 \<le> r" "r < 0.8" | "0.8 \<le> r"
    by linarith
  then show ?thesis
  proof cases
    case 1
    with assms show ?thesis by (simp add: take_action_low)
  next
    case 2
    with assms show ?thesis by (simp add: take_action_medium)
  next
    case 3
    with assms show ?thesis by (simp add: take_action_high)
  next
    case 4
    obtain b s' where b: "block_ip_address s ip r n u t e = (b, s')"
      by (cases "block_ip_address s ip r n u t e")
    with counters_block [OF assms, of ip r n u t e] have "counters_match s'" by simp
    with 4 b show ?thesis by (cases b) (simp_all add: take_action_critical)
  qed
qed

lemma counters_sweep:
  "counters_match s \<Longrightarrow> counters_match (snd (check_and_unblock_expired s t rv))"
  using sweep_preserves [of counters_match] counters_unblock by blast

lemma counters_cycle:
  "counters_match s \<Longrightarrow> counters_match (snd (run_monitoring_cycle s ids ueba f env))"
  using cycle_preserves [of counters_match] counters_take_action counters_unblock by blast

lemma counters_init:
  "init sg reg tm mi c t0 = Inr a \<Longrightarrow>
   counters_match a \<and> total_blocks (stats a) = 0 \<and> total_unblocks (stats a) = 0"
  by (auto simp: init_def counters_match_def split: sum.splits)

lemma reachable_counters: "reachable s \<Longrightarrow> counters_match s"
  by (induction rule: reachable.induct)
     (simp_all add: counters_init counters_take_action counters_unblock counters_sweep counters_cycle)


subsection \<open>Blocking twice\<close>

lemma critical_skipped:
  assumes "0.8 \<le> r" and "dict_contains ip (blocked_ips s) \<or> e \<noteq> Ok"
  shows "take_action s ip r n u t e = (''BLOCK_FAILED'', s)"
proof -
  from assms(2) have "block_ip_address s ip r n u t e = (False, s)"
    using block_already_blocked block_refused by blast
  with assms(1) show ?thesis by (rule take_action_critical_skip)
qed

lemma critical_blocked:
  assumes "0.8 \<le> r" and "\<not> dict_contains ip (blocked_ips s)"
  shows "fst (take_action s ip r n u t Ok) = ''BLOCK''"
    and "dict_contains ip (blocked_ips (snd (take_action s ip r n u t Ok)))"
    and "entries_for ip (blocked_ips (snd (take_action s ip r n u t Ok))) = 1"
    and "total_blocks (stats (snd (take_action s ip r n u t Ok))) = total_blocks (stats s) + 1"
    and "length (alert_history (snd (take_action s ip r n u t Ok))) = Suc (length (alert_history s))"
  using assms
  by (simp_all add: take_action_critical_stored [OF assms(1) block_accepted [OF assms(2)]]
        entries_for_dict_set_new)

lemma twice_unchanged:
  assumes "0.8 \<le> r" and "dict_contains ip (blocked_ips s) \<or> (e1 \<noteq> Ok \<and> e2 \<noteq> Ok)"
  shows "take_action_twice s ip r n u t1 e1 t2 e2 = s"
proof -
  from assms have 1: "take_action s ip r n u t1 e1 = (''BLOCK_FAILED'', s)"
    by (intro critical_skipped) auto
  from assms have 2: "take_action s ip r n u t2 e2 = (''BLOCK_FAILED'', s)"
    by (intro critical_skipped) auto
  show ?thesis by (simp add: take_action_twice_def 1 2)
qed

lemma twice_blocked:
  assumes "0.8 \<le> r" and "\<not> dict_contains ip (blocked_ips s)" and "e1 = Ok \<or> e2 = Ok"
  shows "entries_for ip (blocked_ips (take_action_twice s ip r n u t1 e1 t2 e2)) = 1 \<and>
         total_blocks (stats (take_action_twice s ip r n u t1 e1 t2 e2)) = total_blocks (stats s) + 1"
proof (cases "e1 = Ok")
  case True
  let ?s1 = "snd (take_action s ip r n u t1 Ok)"
  have "dict_contains ip (blocked_ips ?s1)" using critical_blocked(2) [OF assms(1,2)] .
  then have "take_action ?s1 ip r n u t2 e2 = (''BLOCK_FAILED'', ?s1)"
    using critical_skipped [OF assms(1)] by blast
  then have "take_action_twice s ip r n u t1 e1 t2 e2 = ?s1"
    by (simp add: take_action_twice_def True)
  then show ?thesis using critical_blocked(3,4) [OF assms(1,2)] by simp
next
  case False
  with assms(3) have e2: "e2 = Ok" by simp
  from False have "take_action s ip r n u t1 e1 = (''BLOCK_FAILED'', s)"
    using critical_skipped [OF assms(1)] by blast
  then have "take_action_twice s ip r n u t1 e1 t2 e2 = snd (take_action s ip r n u t2 Ok)"
    by (simp add: take_action_twice_def e2)
  then show ?thesis using critical_blocked(3,4) [OF assms(1,2)] by simp
qed

lemma twice_at_most_one:
  assumes "unique_entries s" and "0.8 \<le> r"
  shows "entries_for ip (blocked_ips (take_action_twice s ip r n u t1 e1 t2 e2)) \<le> 1"
proof -
  have "unique_entries (take_action_twice s ip r n u t1 e1 t2 e2)"
    unfolding take_action_twice_def by (intro unique_take_action assms(1))
  then show ?thesis
    by (simp add: unique_entries_def dict_keys_def entries_for_distinct)
qed

text \<open>
  C1, as the code has it. Take an agent whose registry holds at most one entry for each
  address, and call \<open>take_action\<close> twice in a row for one address with the same
  CRITICAL score (0.8 or more), whatever the EC2 service answers to the two calls. Then
  the registry holds at most one entry for the address. If the address was not blocked
  before and the EC2 service accepts the rule in one of the two calls, it holds exactly
  one, and \<open>total_blocks\<close> has gone up by exactly one. If the address was blocked
  before, or the EC2 service refuses both calls, the agent is unchanged: no entry is
  added and \<open>total_blocks\<close> is not incremented. Blocking an address that is already
  blocked returns \<open>False\<close> and changes nothing. Every operation (\<open>take_action\<close> at any
  score, \<open>unblock_ip_address\<close>, the expiry sweep, a monitoring cycle) keeps the
  registry at one entry at most for each address.
\<close>

theorem block_twice_one_entry:
  assumes "unique_entries s" and "0.8 \<le> r"
  shows "entries_for ip (blocked_ips (take_action_twice s ip r n u t1 e1 t2 e2)) \<le> 1 \<and>
    (\<not> dict_contains ip (blocked_ips s) \<and> (e1 = Ok \<or> e2 = Ok) \<longrightarrow>
       entries_for ip (blocked_ips (take_action_twice s ip r n u t1 e1 t2 e2)) = 1 \<and>
       total_blocks (stats (take_action_twice s ip r n u t1 e1 t2 e2)) = total_blocks (stats s) + 1) \<and>
    (dict_contains ip (blocked_ips s) \<or> (e1 \<noteq> Ok \<and> e2 \<noteq> Ok) \<longrightarrow>
       take_action_twice s ip r n u t1 e1 t2 e2 = s) \<and>
    (dict_contains ip (blocked_ips s) \<longrightarrow> block_ip_address s ip r n u t1 e1 = (False, s)) \<and>
    unique_entries (snd (take_action s ip' r' n' u' t e)) \<and>
    unique_entries (snd (unblock_ip_address s ip' e)) \<and>
    unique_entries (snd (check_and_unblock_expired s t rv)) \<and>
    unique_entries (snd (run_monitoring_cycle s ids ueba f env))"
proof -
  have a: "entries_for ip (blocked_ips (take_action_twice s ip r n u t1 e1 t2 e2)) \<le> 1"
    using assms by (rule twice_at_most_one)
  have b: "\<not> dict_contains ip (blocked_ips s) \<and> (e1 = Ok \<or> e2 = Ok) \<longrightarrow>
       entries_for ip (blocked_ips (take_action_twice s ip r n u t1 e1 t2 e2)) = 1 \<and>
       total_blocks (stats (take_action_twice s ip r n u t1 e1 t2 e2)) = total_blocks (stats s) + 1"
    using twice_blocked [OF assms(2)] by blast
  have c: "dict_contains ip (blocked_ips s) \<or> (e1 \<noteq> Ok \<and> e2 \<noteq> Ok) \<longrightarrow>
       take_action_twice s ip r n u t1 e1 t2 e2 = s"
    using twice_unchanged [OF assms(2)] by blast
  have d: "dict_contains ip (blocked_ips s) \<longrightarrow> block_ip_address s ip r n u t1 e1 = (False, s)"
    by (simp add: block_already_blocked)
  have e: "unique_entries (snd (take_action s ip' r' n' u' t e))"
    using assms(1) by (rule unique_take_action)
  have f: "unique_entries (snd (unblock_ip_address s ip' e))"
    using assms(1) by (rule unique_unblock)
  have g: "unique_entries (snd (check_and_unblock_expired s t rv))"
    using assms(1) by (rule unique_sweep)
  have h: "unique_entries (snd (run_monitoring_cycle s ids ueba f env))"
    using assms(1) by (rule unique_cycle)
  from a b c d e f g h show ?thesis by blast
qed

theorem block_twice_one_entry_witness:
  "unique_entries (test_agent 0) \<and>
   entries_for ''203.0.113.42''
     (blocked_ips (take_action_twice (test_agent 0) ''203.0.113.42'' 0.92 0.95 0.85 0 Ok 1 Ok)) = 1 \<and>
   total_blocks (stats (take_action_twice (test_agent 0) ''203.0.113.42'' 0.92 0.95 0.85 0 Ok 1 Ok)) = 1"
proof -
  have u: "unique_entries (test_agent 0)"
    by (simp add: unique_entries_def dict_keys_def test_agent_def)
  have r: "(0.8::real) \<le> 0.92" by simp
  have n: "\<not> dict_contains ''203.0.113.42'' (blocked_ips (test_agent 0))"
    by (simp add: dict_contains_def test_agent_def)
  have z: "total_blocks (stats (test_agent 0)) = 0" by (simp add: test_agent_def)
  from block_twice_one_entry [OF u r, of "''203.0.113.42''" "0.95" "0.85" 0 Ok 1 Ok] n z u
  show ?thesis by simp
qed

text \<open>
  The claim as the specification words it fails where the EC2 service refuses the rule,
  as it does for the security group of the test suite: after two CRITICAL calls for
  \<open>203.0.113.42\<close> the registry holds no entry for it and \<open>total_blocks\<close> is still 0.
\<close>

theorem block_twice_refused:
  "entries_for ''203.0.113.42''
     (blocked_ips (take_action_twice (test_agent 0) ''203.0.113.42'' 0.92 0.95 0.85 0
        (ClientError ''InvalidGroup.NotFound'') 1 (ClientError ''InvalidGroup.NotFound''))) = 0 \<and>
   total_blocks (stats (take_action_twice (test_agent 0) ''203.0.113.42'' 0.92 0.95 0.85 0
        (ClientError ''InvalidGroup.NotFound'') 1 (ClientError ''InvalidGroup.NotFound''))) = 0"
  by (simp add: take_action_twice_def take_action_def block_ip_address_def test_agent_def
        dict_contains_def entries_for_def assess_threat_level_def)


section \<open>Unblocking\<close>

lemma unblock_accepted_effect:
  assumes "unique_entries s" and "dict_contains ip (blocked_ips s)"
  shows "fst (unblock_ip_address s ip Ok) = True"
    and "\<not> dict_contains ip (blocked_ips (snd (unblock_ip_address s ip Ok)))"
    and "ip' \<noteq> ip \<Longrightarrow> dict_contains ip' (blocked_ips (snd (unblock_ip_address s ip Ok)))
                          = dict_contains ip' (blocked_ips s)"
    and "total_unblocks (stats (snd (unblock_ip_address s ip Ok))) = total_unblocks (stats s) + 1"
    and "Suc (length (blocked_ips (snd (unblock_ip_address s ip Ok)))) = length (blocked_ips s)"
  using assms
  by (simp_all add: unblock_accepted unique_entries_def dict_keys_def dict_del_removes
        dict_del_other length_dict_del)

text \<open>
  C8, as the code has it. For a currently blocked address \<open>unblock_ip_address\<close> first
  calls the EC2 \<open>revoke\<close> operation. If that call returns, the entry of the address is
  removed from the registry (every other entry stays), \<open>total_unblocks\<close> goes up by
  exactly one and the result is \<open>True\<close>. If that call raises, the result is \<open>False\<close> and
  the agent is unchanged: the entry stays and \<open>total_unblocks\<close> is not incremented. For
  an address with no entry the result is \<open>False\<close> and the agent is unchanged, whatever
  the EC2 service would have answered.
\<close>

theorem unblock_outcomes:
  assumes "unique_entries s"
  shows "(dict_contains ip (blocked_ips s) \<longrightarrow>
            fst (unblock_ip_address s ip Ok) = True \<and>
            \<not> dict_contains ip (blocked_ips (snd (unblock_ip_address s ip Ok))) \<and>
            (\<forall>ip'. ip' \<noteq> ip \<longrightarrow>
               dict_contains ip' (blocked_ips (snd (unblock_ip_address s ip Ok)))
                 = dict_contains ip' (blocked_ips s)) \<and>
            int (length (blocked_ips (snd (unblock_ip_address s ip Ok))))
              = int (length (blocked_ips s)) - 1 \<and>
            total_unblocks (stats (snd (unblock_ip_address s ip Ok)))
              = total_unblocks (stats s) + 1) \<and>
         (e \<noteq> Ok \<longrightarrow> unblock_ip_address s ip e = (False, s)) \<and>
         (\<not> dict_contains ip (blocked_ips s) \<longrightarrow> unblock_ip_address s ip e = (False, s))"
proof -
  have a: "dict_contains ip (blocked_ips s) \<longrightarrow>
            fst (unblock_ip_address s ip Ok) = True \<and>
            \<not> dict_contains ip (blocked_ips (snd (unblock_ip_address s ip Ok))) \<and>
            (\<forall>ip'. ip' \<noteq> ip \<longrightarrow>
               dict_contains ip' (blocked_ips (snd (unblock_ip_address s ip Ok)))
                 = dict_contains ip' (blocked_ips s)) \<and>
            int (length (blocked_ips (snd (unblock_ip_address s ip Ok))))
              = int (length (blocked_ips s)) - 1 \<and>
            total_unblocks (stats (snd (unblock_ip_address s ip Ok)))
              = total_unblocks (stats s) + 1"
  proof
    assume c: "dict_contains ip (blocked_ips s)"
    note eff = unblock_accepted_effect [OF assms c]
    have "int (length (blocked_ips (snd (unblock_ip_address s ip Ok))))
              = int (length (blocked_ips s)) - 1"
      using eff(5) by linarith
    with eff(1,2,3,4) show "fst (unblock_ip_address s ip Ok) = True \<and>
            \<not> dict_contains ip (blocked_ips (snd (unblock_ip_address s ip Ok))) \<and>
            (\<forall>ip'. ip' \<noteq> ip \<longrightarrow>
               dict_contains ip' (blocked_ips (snd (unblock_ip_address s ip Ok)))
                 = dict_contains ip' (blocked_ips s)) \<and>
            int (length (blocked_ips (snd (unblock_ip_address s ip Ok))))
              = int (length (blocked_ips s)) - 1 \<and>
            total_unblocks (stats (snd (unblock_ip_address s ip Ok)))
              = total_unblocks (stats s) + 1"
      by blast
  qed
  have b: "e \<noteq> Ok \<longrightarrow> unblock_ip_address s ip e = (False, s)"
    by (simp add: unblock_refused)
  have c: "\<not> dict_contains ip (blocked_ips s) \<longrightarrow> unblock_ip_address s ip e = (False, s)"
    by (simp add: unblock_not_blocked)
  from a b c show ?thesis by blast
qed

lemma blocked_agent_eq:
  "blocked_agent t0 =
     \<lparr> security_group_id = ''sg-test-only'', region = ''ap-south-1'',
       block_timeout_minutes = 10, monitoring_interval = 60,
       blocked_ips = [(''203.0.113.42'',
          \<lparr> b_ip_address = ''203.0.113.42'', blocked_at = t0, b_risk_score = 0.92,
            b_security_group_id = ''sg-test-only'', rule_id = None,
            reason = (''Critical threat: Risk '', 0.92) \<rparr>)],
       rate_limited_ips = [],
       alert_history = [\<lparr> a_timestamp = t0, a_ip_address = ''203.0.113.42'', a_risk_score = 0.92,
          a_network_risk = 0.95, a_user_risk = 0.85, a_threat_level = ''CRITICAL'',
          a_action = ''ALERT_SENT'' \<rparr>],
       stats = \<lparr> total_blocks = 1, total_unblocks = 0, total_alerts = 1,
                 total_rate_limits = 0, start_time = t0 \<rparr> \<rparr>"
  by (simp add: blocked_agent_def test_agent_def take_action_def block_ip_address_def
        send_alert_def assess_threat_level_def dict_contains_def)

theorem unblock_outcomes_witness:
  "unique_entries (blocked_agent 0) \<and> dict_contains ''203.0.113.42'' (blocked_ips (blocked_agent 0)) \<and>
   fst (unblock_ip_address (blocked_agent 0) ''203.0.113.42'' Ok) = True \<and>
   \<not> dict_contains ''203.0.113.42''
        (blocked_ips (snd (unblock_ip_address (blocked_agent 0) ''203.0.113.42'' Ok))) \<and>
   total_unblocks (stats (snd (unblock_ip_address (blocked_agent 0) ''203.0.113.42'' Ok))) = 1 \<and>
   OtherException \<noteq> Ok \<and>
   unblock_ip_address (blocked_agent 0) ''203.0.113.42'' OtherException = (False, blocked_agent 0) \<and>
   \<not> dict_contains ''never-blocked'' (blocked_ips (blocked_agent 0)) \<and>
   unblock_ip_address (blocked_agent 0) ''never-blocked'' Ok = (False, blocked_agent 0)"
proof -
  have u: "unique_entries (blocked_agent 0)"
    by (simp add: blocked_agent_eq unique_entries_def dict_keys_def)
  have c: "dict_contains ''203.0.113.42'' (blocked_ips (blocked_agent 0))"
    by (simp add: blocked_agent_eq dict_contains_def)
  have n: "\<not> dict_contains ''never-blocked'' (blocked_ips (blocked_agent 0))"
    by (simp add: blocked_agent_eq dict_contains_def)
  have z: "total_unblocks (stats (blocked_agent 0)) = 0"
    by (simp add: blocked_agent_eq)
  from unblock_outcomes [OF u, of "''203.0.113.42''" OtherException]
       unblock_outcomes [OF u, of "''never-blocked''" Ok] u c n z
  show ?thesis by simp
qed

text \<open>
  The claim as the specification words it fails where the EC2 \<open>revoke\<close> call raises: the
  address is blocked, and after \<open>unblock_ip_address\<close> it still is, \<open>total_unblocks\<close> is
  still 0 and the result is \<open>False\<close>.
\<close>

theorem unblock_revoke_fails:
  "dict_contains ''203.0.113.42'' (blocked_ips (blocked_agent 0)) \<and>
   fst (unblock_ip_address (blocked_agent 0) ''203.0.113.42'' (ClientError ''RequestLimitExceeded'')) = False \<and>
   dict_contains ''203.0.113.42''
     (blocked_ips (snd (unblock_ip_address (blocked_agent 0) ''203.0.113.42''
        (ClientError ''RequestLimitExceeded'')))) \<and>
   total_unblocks (stats (snd (unblock_ip_address (blocked_agent 0) ''203.0.113.42''
        (ClientError ''RequestLimitExceeded'')))) = 0"
  by (simp add: blocked_agent_eq unblock_ip_address_def dict_contains_def)

section \<open>Entries and the two counters\<close>

text \<open>
  C10. A new agent has both counters at zero and an empty registry. Every operation
  (\<open>take_action\<close> at any score, \<open>unblock_ip_address\<close>, the expiry sweep, a monitoring
  cycle) keeps the number of entries of the registry equal to \<open>total_blocks\<close> minus
  \<open>total_unblocks\<close>. So in every state an agent can reach, \<open>get_statistics\<close> reports
  \<open>currently_blocked\<close> equal to its \<open>total_blocks\<close> minus its \<open>total_unblocks\<close>.
\<close>

theorem registry_size_is_blocks_minus_unblocks:
  "(init sg_id reg timeout interval (Inr ()) t0 = Inr a \<longrightarrow>
      counters_match a \<and> total_blocks (stats a) = 0 \<and> total_unblocks (stats a) = 0) \<and>
   (counters_match s \<longrightarrow>
      counters_match (snd (take_action s ip r n u t e)) \<and>
      counters_match (snd (unblock_ip_address s ip e)) \<and>
      counters_match (snd (check_and_unblock_expired s t rv)) \<and>
      counters_match (snd (run_monitoring_cycle s ids ueba f env))) \<and>
   (reachable s' \<longrightarrow>
      int (length (blocked_ips s')) = total_blocks (stats s') - total_unblocks (stats s') \<and>
      currently_blocked (get_statistics s' now)
        = st_total_blocks (get_statistics s' now) - st_total_unblocks (get_statistics s' now))"
proof -
  have a: "init sg_id reg timeout interval (Inr ()) t0 = Inr a \<longrightarrow>
      counters_match a \<and> total_blocks (stats a) = 0 \<and> total_unblocks (stats a) = 0"
    using counters_init by blast
  have b: "counters_match s \<longrightarrow>
      counters_match (snd (take_action s ip r n u t e)) \<and>
      counters_match (snd (unblock_ip_address s ip e)) \<and>
      counters_match (snd (check_and_unblock_expired s t rv)) \<and>
      counters_match (snd (run_monitoring_cycle s ids ueba f env))"
    by (simp add: counters_take_action counters_unblock counters_sweep counters_cycle)
  have c: "reachable s' \<longrightarrow>
      int (length (blocked_ips s')) = total_blocks (stats s') - total_unblocks (stats s') \<and>
      currently_blocked (get_statistics s' now)
        = st_total_blocks (get_statistics s' now) - st_total_unblocks (get_statistics s' now)"
  proof
    assume "reachable s'"
    then have "counters_match s'" by (rule reachable_counters)
    then show "int (length (blocked_ips s')) = total_blocks (stats s') - total_unblocks (stats s') \<and>
      currently_blocked (get_statistics s' now)
        = st_total_blocks (get_statistics s' now) - st_total_unblocks (get_statistics s' now)"
      by (simp add: counters_match_def get_statistics_def)
  qed
  from a b c show ?thesis by blast
qed

lemma init_test_agent:
  "init ''sg-test-only'' ''ap-south-1'' 10 60 (Inr ()) t0 = Inr (test_agent t0)"
  by (simp add: init_def test_agent_def)

lemma reachable_test_agent: "reachable (test_agent t0)"
  using init_test_agent by (rule r_init)

lemma reachable_blocked_agent: "reachable (blocked_agent t0)"
  unfolding blocked_agent_def using reachable_test_agent by (rule r_take_action)

theorem registry_size_is_blocks_minus_unblocks_witness:
  "init ''sg-test-only'' ''ap-south-1'' 10 60 (Inr ()) 0 = Inr (test_agent 0) \<and>
   counters_match (test_agent 0) \<and>
   counters_match (snd (take_action (test_agent 0) ''203.0.113.42'' 0.92 0.95 0.85 0 Ok)) \<and>
   reachable (blocked_agent 0) \<and>
   currently_blocked (get_statistics (blocked_agent 0) 5) = 1 \<and>
   st_total_blocks (get_statistics (blocked_agent 0) 5) = 1 \<and>
   st_total_unblocks (get_statistics (blocked_agent 0) 5) = 0"
proof -
  have i: "init ''sg-test-only'' ''ap-south-1'' 10 60 (Inr ()) 0 = Inr (test_agent 0)"
    by (rule init_test_agent)
  have r: "reachable (blocked_agent 0)" by (rule reachable_blocked_agent)
  from registry_size_is_blocks_minus_unblocks
    [of "''sg-test-only''" "''ap-south-1''" 10 60 0 "test_agent 0" "test_agent 0"
        "''203.0.113.42''" "0.92" "0.95" "0.85" 0 Ok _ _ _ _ _ "blocked_agent 0" 5] i r
  show ?thesis by (simp add: get_statistics_def blocked_agent_eq)
qed


section \<open>Construction\<close>

text \<open>
  C7, as the code has it. \<open>__init__\<close> checks none of its arguments. When the EC2 client
  can be created, construction succeeds for every monitoring interval and every block
  timeout, negative ones too, and the agent stores them as given. Construction fails
  only when creating the EC2 client fails, and then with the exception of the client.
\<close>

theorem init_accepts_any_configuration:
  "(\<exists>a. init sg_id reg timeout interval (Inr ()) now = Inr a \<and>
        monitoring_interval a = interval \<and> block_timeout_minutes a = timeout \<and>
        security_group_id a = sg_id \<and> region a = reg) \<and>
   init sg_id reg timeout interval (Inl ex) now = Inl ex"
  by (simp add: init_def)

text \<open>
  The claim as the specification words it fails: with a monitoring interval of -60
  construction returns an agent, whose interval is -60.
\<close>

theorem init_negative_interval:
  "init ''sg-test-only'' ''ap-south-1'' 10 (- 60) (Inr ()) 0
     = Inr ((test_agent 0) \<lparr> monitoring_interval := - 60 \<rparr>)"
  by (simp add: init_def test_agent_def)


section \<open>Alerts and the rate limit\<close>

lemma alerting_simps [simp]:
  "alerting ''ALERT''" "alerting ''RATE_LIMIT''" "alerting ''BLOCK''"
  "\<not> alerting ''LOG''" "\<not> alerting ''BLOCK_FAILED''"
  by (simp_all add: alerting_def)

lemma take_action_alert_effect:
  assumes "take_action s ip r n u t e = (a, s')"
  shows "length (alert_history s') = length (alert_history s) + (if alerting a then 1 else 0)"
    and "total_alerts (stats s') = total_alerts (stats s) + (if alerting a then 1 else 0)"
    and "total_rate_limits (stats s') = total_rate_limits (stats s) + (if a = ''RATE_LIMIT'' then 1 else 0)"
    and "0.4 \<le> r \<Longrightarrow> alerting a \<or> a = ''BLOCK_FAILED''"
    and "0.4 \<le> r \<Longrightarrow> r < 0.8 \<Longrightarrow> alerting a"
proof -
  consider "r < 0.4" | "0.4 \<le> r" "r < 0.6" | "0.6 \<le> r" "r < 0.8" | "0.8 \<le> r"
    by linarith
  then have "(length (alert_history s') = length (alert_history s) + (if alerting a then 1 else 0)) \<and>
    (total_alerts (stats s') = total_alerts (stats s) + (if alerting a then 1 else 0)) \<and>
    (total_rate_limits (stats s') = total_rate_limits (stats s) + (if a = ''RATE_LIMIT'' then 1 else 0)) \<and>
    (0.4 \<le> r \<longrightarrow> alerting a \<or> a = ''BLOCK_FAILED'') \<and>
    (0.4 \<le> r \<longrightarrow> r < 0.8 \<longrightarrow> alerting a)"
  proof cases
    case 1
    with assms show ?thesis by (auto simp: take_action_low)
  next
    case 2
    with assms show ?thesis by (auto simp: take_action_medium)
  next
    case 3
    with assms show ?thesis by (auto simp: take_action_high)
  next
    case 4
    show ?thesis
    proof (cases rule: block_cases [of s ip r n u t e])
      case skip
      with 4 assms show ?thesis by (auto simp: take_action_critical)
    next
      case stored
      with 4 assms show ?thesis by (auto simp: take_action_critical)
    qed
  qed
  then show "length (alert_history s') = length (alert_history s) + (if alerting a then 1 else 0)"
    and "total_alerts (stats s') = total_alerts (stats s) + (if alerting a then 1 else 0)"
    and "total_rate_limits (stats s') = total_rate_limits (stats s) + (if a = ''RATE_LIMIT'' then 1 else 0)"
    and "0.4 \<le> r \<Longrightarrow> alerting a \<or> a = ''BLOCK_FAILED''"
    and "0.4 \<le> r \<Longrightarrow> r < 0.8 \<Longrightarrow> alerting a"
    by simp_all
qed

lemma take_actions_effect:
  "take_actions s calls = (actions, s') \<Longrightarrow>
   length actions = length calls \<and>
   length (alert_history s') = length (alert_history s) + length (filter alerting actions) \<and>
   total_alerts (stats s') = total_alerts (stats s) + int (length (filter alerting actions)) \<and>
   total_rate_limits (stats s')
     = total_rate_limits (stats s) + int (length (filter (\<lambda>a. a = ''RATE_LIMIT'') actions)) \<and>
   ((\<forall>c\<in>set calls. 0.4 \<le> c_risk_score c) \<longrightarrow>
      (\<forall>a\<in>set actions. alerting a \<or> a = ''BLOCK_FAILED'')) \<and>
   ((\<forall>c\<in>set calls. 0.4 \<le> c_risk_score c \<and> c_risk_score c < 0.8) \<longrightarrow>
      (\<forall>a\<in>set actions. alerting a))"
proof (induction calls arbitrary: s actions s')
  case Nil
  then show ?case by auto
next
  case (Cons c cs)
  obtain a s1 where 1: "take_action s (c_ip c) (c_risk_score c) (c_network_risk c) (c_user_risk c)
      (c_now c) (c_ec2 c) = (a, s1)"
    by (cases "take_action s (c_ip c) (c_risk_score c) (c_network_risk c) (c_user_risk c)
      (c_now c) (c_ec2 c)")
  obtain as s2 where 2: "take_actions s1 cs = (as, s2)"
    by (cases "take_actions s1 cs")
  from Cons.prems 1 2 have eq: "actions = a # as" "s' = s2" by simp_all
  note ih = Cons.IH [OF 2]
  note st = take_action_alert_effect [OF 1]
  from ih st(1,2,3) have counts:
    "length actions = length (c # cs)"
    "length (alert_history s') = length (alert_history s) + length (filter alerting actions)"
    "total_alerts (stats s') = total_alerts (stats s) + int (length (filter alerting actions))"
    "total_rate_limits (stats s')
       = total_rate_limits (stats s) + int (length (filter (\<lambda>a. a = ''RATE_LIMIT'') actions))"
    by (simp_all add: eq)
  have m: "(\<forall>c\<in>set (c # cs). 0.4 \<le> c_risk_score c) \<longrightarrow>
      (\<forall>a\<in>set actions. alerting a \<or> a = ''BLOCK_FAILED'')"
    using ih st(4) by (simp add: eq)
  have h: "(\<forall>c\<in>set (c # cs). 0.4 \<le> c_risk_score c \<and> c_risk_score c < 0.8) \<longrightarrow>
      (\<forall>a\<in>set actions. alerting a)"
    using ih st(5) by (simp add: eq)
  from counts m h show ?case by blast
qed

lemma create_alert_history:
  "length (as_alert_history (fst (create_alert sys l fr nr ur nb np now)))
     = Suc (length (as_alert_history sys))"
  by (simp add: create_alert_def Let_def)

lemma create_alert_email:
  "snd (create_alert sys l fr nr ur nb np now)
     = (fr \<ge> email_threshold (config sys) \<and> email_enabled (config sys) \<and>
        check_rate_limit (fst (create_alert sys l fr nr ur nb np now)) now)"
  by (simp add: create_alert_def Let_def)


text \<open>
  C3, as the code has it. The agent has no limit on alerts an hour and \<open>send_alert\<close>
  consults no rate limiter. In any sequence of \<open>take_action\<close> calls, every call that
  returns ALERT, RATE_LIMIT or BLOCK appends one record to the alert history and adds
  one to \<open>total_alerts\<close>, and no other call does; every call that returns RATE_LIMIT adds
  one to \<open>total_rate_limits\<close>. A call with a risk of 0.4 or more returns one of these
  three actions or BLOCK_FAILED; with a risk from 0.4 up to 0.8 it returns ALERT or
  RATE_LIMIT, so \<open>n\<close> such calls append \<open>n\<close> records, whatever their times. The rate limit
  of the repository is the e-mail limit of \<open>AlertSystem\<close>: \<open>create_alert\<close> always appends
  the alert to the history of that system, and contacts the mail server only if
  \<open>check_rate_limit\<close> admits it on the history that already holds the new alert.
\<close>

theorem every_alert_is_recorded:
  assumes "take_actions s calls = (actions, s')"
  shows "length actions = length calls \<and>
   length (alert_history s') = length (alert_history s) + length (filter alerting actions) \<and>
   total_alerts (stats s') = total_alerts (stats s) + int (length (filter alerting actions)) \<and>
   total_rate_limits (stats s')
     = total_rate_limits (stats s) + int (length (filter (\<lambda>a. a = ''RATE_LIMIT'') actions)) \<and>
   ((\<forall>c\<in>set calls. 0.4 \<le> c_risk_score c) \<longrightarrow>
      (\<forall>a\<in>set actions. alerting a \<or> a = ''BLOCK_FAILED'')) \<and>
   ((\<forall>c\<in>set calls. 0.4 \<le> c_risk_score c \<and> c_risk_score c < 0.8) \<longrightarrow>
      length (alert_history s') = length (alert_history s) + length calls \<and>
      total_alerts (stats s') = total_alerts (stats s) + int (length calls)) \<and>
   length (as_alert_history (fst (create_alert sys l fr nr ur nb np now)))
     = Suc (length (as_alert_history sys)) \<and>
   snd (create_alert sys l fr nr ur nb np now)
     = (fr \<ge> email_threshold (config sys) \<and> email_enabled (config sys) \<and>
        check_rate_limit (fst (create_alert sys l fr nr ur nb np now)) now)"
proof -
  note eff = take_actions_effect [OF assms]
  have band: "length (alert_history s') = length (alert_history s) + length calls \<and>
      total_alerts (stats s') = total_alerts (stats s) + int (length calls)"
    if "\<forall>c\<in>set calls. 0.4 \<le> c_risk_score c \<and> c_risk_score c < 0.8"
  proof -
    from eff that have "\<forall>a\<in>set actions. alerting a" by blast
    then have "filter alerting actions = actions" by (simp add: filter_id_conv)
    with eff show ?thesis by simp
  qed
  from eff band create_alert_history create_alert_email show ?thesis by blast
qed

theorem every_alert_is_recorded_witness:
  "0.4 \<le> c_risk_score (medium_call 1) \<and> c_risk_score (medium_call 1) < 0.8 \<and>
   0.4 \<le> c_risk_score (medium_call 2) \<and> c_risk_score (medium_call 2) < 0.8 \<and>
   length (alert_history (snd (take_actions (test_agent 0) [medium_call 1, medium_call 2]))) = 2 \<and>
   total_alerts (stats (snd (take_actions (test_agent 0) [medium_call 1, medium_call 2]))) = 2"
proof -
  have a: "take_actions (test_agent 0) [medium_call 1, medium_call 2]
    = (fst (take_actions (test_agent 0) [medium_call 1, medium_call 2]),
       snd (take_actions (test_agent 0) [medium_call 1, medium_call 2]))"
    by (rule prod.collapse [symmetric])
  have b: "\<forall>c\<in>set [medium_call 1, medium_call 2]. 0.4 \<le> c_risk_score c \<and> c_risk_score c < 0.8"
    by (simp add: medium_call_def)
  have z: "length (alert_history (test_agent 0)) = 0" "total_alerts (stats (test_agent 0)) = 0"
    by (simp_all add: test_agent_def)
  note th = every_alert_is_recorded [OF a]
  note c6 = th [THEN conjunct2, THEN conjunct2, THEN conjunct2, THEN conjunct2, THEN conjunct2,
                THEN conjunct1, THEN mp, OF b]
  from b c6 z show ?thesis by simp
qed

text \<open>
  The claim as the specification words it fails: three MEDIUM calls in the first three
  minutes of one clock hour append three records to the alert history of the agent, none
  is suppressed, and \<open>total_alerts\<close> is 3. The system with the e-mail limit of 2 an hour
  also holds three alerts in its history after three HIGH alerts in that hour.
\<close>

theorem three_alerts_three_records:
  "start_of_hour (c_now (medium_call 1)) = start_of_hour (c_now (medium_call 3)) \<and>
   fst (take_actions (test_agent 0) [medium_call 1, medium_call 2, medium_call 3])
     = [''ALERT'', ''ALERT'', ''ALERT''] \<and>
   length (alert_history (snd (take_actions (test_agent 0)
     [medium_call 1, medium_call 2, medium_call 3]))) = 3 \<and>
   total_alerts (stats (snd (take_actions (test_agent 0)
     [medium_call 1, medium_call 2, medium_call 3]))) = 3 \<and>
   length (as_alert_history (fst (create_high_alert (fst (create_high_alert
     (fst (create_high_alert limited_system 1)) 2)) 3))) = 3"
proof -
  have 1: "start_of_hour (c_now (medium_call 1)) = start_of_hour (c_now (medium_call 3))"
    by (simp add: start_of_hour_def medium_call_def minutes_def)
  have 2: "take_actions (test_agent 0) [medium_call 1, medium_call 2, medium_call 3]
    = ([''ALERT'', ''ALERT'', ''ALERT''],
       send_alert (send_alert (send_alert (test_agent 0)
           ''10.0.1.101'' 0.5 0.55 0.45 ''MEDIUM'' (minutes 1))
           ''10.0.1.101'' 0.5 0.55 0.45 ''MEDIUM'' (minutes 2))
           ''10.0.1.101'' 0.5 0.55 0.45 ''MEDIUM'' (minutes 3))"
    by (simp add: medium_call_def take_action_medium)
  have 3: "length (as_alert_history (fst (create_high_alert (fst (create_high_alert
     (fst (create_high_alert limited_system 1)) 2)) 3))) = 3"
    by (simp add: create_high_alert_def create_alert_history limited_system_def)
  from 1 3 show ?thesis unfolding 2 by (simp add: test_agent_def)
qed

section \<open>Rounding to a double\<close>

lemma binade_eq:
  assumes "2 powi k \<le> \<bar>x\<bar>" and "\<bar>x\<bar> < 2 powi (k + 1)" and "- 1022 \<le> k"
  shows "binade x = k"
proof -
  have pos: "0 < \<bar>x\<bar>"
    using assms(1) zero_less_power_int [of "2 :: real" k] by linarith
  have a: "(2::real) powr real_of_int k = 2 powi k"
    by (simp add: powr_real_of_int')
  have "(2::real) powr real_of_int (k + 1) = 2 powi (k + 1)"
    by (rule powr_real_of_int') simp_all
  then have b: "(2::real) powr (real_of_int k + 1) = 2 powi (k + 1)"
    by simp
  have "\<lfloor>log 2 \<bar>x\<bar>\<rfloor> = k"
    using assms(1,2) pos by (simp add: floor_log_eq_powr_iff a b)
  with assms(3) show ?thesis by (simp add: binade_def)
qed

lemma round_double_eval:
  assumes "2 powi k \<le> \<bar>x\<bar>" and "\<bar>x\<bar> < 2 powi (k + 1)" and "- 1022 \<le> k"
  shows "round_double x = of_int (round_half_even (x / 2 powi (k - 52))) * 2 powi (k - 52)"
proof -
  have "0 < \<bar>x\<bar>"
    using assms(1) zero_less_power_int [of "2 :: real" k] by linarith
  then have "x \<noteq> 0" by simp
  then show ?thesis by (simp add: round_double_def binade_eq [OF assms])
qed

lemma round_double_0 [simp]: "round_double 0 = 0"
  by (simp add: round_double_def)

lemma round_double_1 [simp]: "round_double 1 = 1"
  by (subst round_double_eval [where k = 0]) (simp_all add: round_half_even_def power_int_minus)

lemma round_double_half: "round_double (1 / 2) = 1 / 2"
  by (subst round_double_eval [where k = "- 1"]) (simp_all add: round_half_even_def power_int_minus)

lemma double_04: "round_double 0.4 = 3602879701896397 / 2 ^ 53"
  by (subst round_double_eval [where k = "- 2"]) (simp_all add: round_half_even_def power_int_minus)

lemma double_06: "round_double 0.6 = 5404319552844595 / 2 ^ 53"
  by (subst round_double_eval [where k = "- 1"]) (simp_all add: round_half_even_def power_int_minus)

lemma double_08: "round_double 0.8 = 7205759403792794 / 2 ^ 53"
  by (subst round_double_eval [where k = "- 1"]) (simp_all add: round_half_even_def power_int_minus)

lemma double_09: "round_double 0.9 = 8106479329266893 / 2 ^ 53"
  by (subst round_double_eval [where k = "- 1"]) (simp_all add: round_half_even_def power_int_minus)

lemma double_01: "round_double 0.1 = 3602879701896397 / 2 ^ 55"
  by (subst round_double_eval [where k = "- 4"]) (simp_all add: round_half_even_def power_int_minus)

lemma double_034: "round_double 0.34 = 6124895493223875 / 2 ^ 54"
  by (subst round_double_eval [where k = "- 2"]) (simp_all add: round_half_even_def power_int_minus)

lemma round_half_even_error: "\<bar>of_int (round_half_even y) - y\<bar> \<le> 1 / 2"
proof -
  have "of_int \<lfloor>y\<rfloor> \<le> y" "y < of_int \<lfloor>y\<rfloor> + 1" by linarith+
  then show ?thesis by (auto simp: round_half_even_def Let_def)
qed

lemma round_double_error: "\<bar>round_double x - x\<bar> \<le> \<bar>x\<bar> / 2 ^ 53 + 2 powi (- 1075)"
proof (cases "x = 0")
  case True
  then show ?thesis by simp
next
  case False
  define q :: real where "q = 2 powi (binade x - 52)"
  have q: "0 < q" by (simp add: q_def zero_less_power_int)
  have "round_double x - x = (of_int (round_half_even (x / q)) - x / q) * q"
    using False q by (simp add: round_double_def q_def algebra_simps)
  then have "\<bar>round_double x - x\<bar> = \<bar>of_int (round_half_even (x / q)) - x / q\<bar> * q"
    using q by (simp add: abs_mult)
  also have "\<dots> \<le> (1 / 2) * q"
    using round_half_even_error [of "x / q"] q by (intro mult_right_mono) simp_all
  finally have h: "\<bar>round_double x - x\<bar> \<le> q / 2" by simp
  have eta: "0 \<le> (2::real) powi (- 1075)" by (rule zero_le_power_int) simp
  show ?thesis
  proof (cases "\<lfloor>log 2 \<bar>x\<bar>\<rfloor> \<ge> - 1022")
    case True
    then have b: "binade x = \<lfloor>log 2 \<bar>x\<bar>\<rfloor>" by (simp add: binade_def)
    have "(2::real) powr real_of_int \<lfloor>log 2 \<bar>x\<bar>\<rfloor> \<le> \<bar>x\<bar>"
      using False floor_log_eq_powr_iff [of "\<bar>x\<bar>" 2 "\<lfloor>log 2 \<bar>x\<bar>\<rfloor>"] by simp
    then have "2 powi (binade x) \<le> \<bar>x\<bar>"
      by (simp add: b powr_real_of_int')
    moreover have "q = 2 powi (binade x) / 2 ^ 52"
      by (simp add: q_def power_int_diff)
    ultimately have "q / 2 \<le> \<bar>x\<bar> / 2 ^ 53"
      by (simp add: field_simps)
    with h have "\<bar>round_double x - x\<bar> \<le> \<bar>x\<bar> / 2 ^ 53" by (rule order_trans)
    with eta show ?thesis by (rule add_increasing2)
  next
    case False
    then have "binade x = - 1022" by (simp add: binade_def)
    then have "q = 2 powi (- 1075 + 1)" by (simp only: q_def) simp
    also have "\<dots> = 2 powi (- 1075) * 2"
      by (subst power_int_add) simp_all
    finally have "q / 2 = 2 powi (- 1075)" by simp
    with h have "\<bar>round_double x - x\<bar> \<le> 2 powi (- 1075)" by simp
    moreover have "0 \<le> \<bar>x\<bar> / 2 ^ 53" by simp
    ultimately show ?thesis by (simp only: add_increasing)
  qed
qed


lemma double_06_again: "round_double (5404319552844595 / 2 ^ 53) = 5404319552844595 / 2 ^ 53"
  by (subst round_double_eval [where k = "- 1"]) (simp_all add: round_half_even_def power_int_minus)

lemma double_04_again: "round_double (3602879701896397 / 2 ^ 53) = 3602879701896397 / 2 ^ 53"
  by (subst round_double_eval [where k = "- 2"]) (simp_all add: round_half_even_def power_int_minus)

lemma reading_literals:
  "reading (round_double 0.4) = 0.4" "reading (round_double 0.6) = 0.6"
  "reading (round_double 0.8) = 0.8"
  unfolding reading_def double_04 double_06 double_08 by simp_all

lemma combine_risks_1_0: "combine_risks 1 0 = (round_double 0.6, ''MEDIUM'')"
  unfolding combine_risks_def Let_def fmul_def fadd_def double_04 double_06 double_08
    mult_1_right mult_zero_right round_double_0 add_0_right double_06_again
  by simp

lemma combine_risks_0_1: "combine_risks 0 1 = (round_double 0.4, ''LOW'')"
  unfolding combine_risks_def Let_def fmul_def fadd_def double_04 double_06 double_08
    mult_1_right mult_zero_right round_double_0 add_0_left double_04_again
  by simp

lemma combine_risks_level:
  "(snd (combine_risks n u) = ''CRITICAL'') = (fst (combine_risks n u) > round_double 0.8)"
  "(snd (combine_risks n u) = ''HIGH'')
     = (fst (combine_risks n u) > round_double 0.6 \<and> fst (combine_risks n u) \<le> round_double 0.8)"
  "(snd (combine_risks n u) = ''MEDIUM'')
     = (fst (combine_risks n u) > round_double 0.4 \<and> fst (combine_risks n u) \<le> round_double 0.6)"
  "(snd (combine_risks n u) = ''LOW'') = (fst (combine_risks n u) \<le> round_double 0.4)"
  unfolding combine_risks_def Let_def double_04 double_06 double_08 by auto

lemma combine_risks_error:
  "\<bar>fst (combine_risks n u) - (0.6 * n + 0.4 * u)\<bar>
     \<le> (\<bar>n\<bar> + \<bar>u\<bar>) / 2 ^ 51 + 4 * 2 powi (- 1075)"
proof -
  define h :: real where "h = 2 powi (- 1075)"
  define e :: real where "e = 1 / 2 ^ 53"
  have h: "0 \<le> h" unfolding h_def by (rule zero_le_power_int) simp
  have e: "0 \<le> e" "e \<le> 1 / 8" by (simp_all add: e_def)
  define c6 :: real where "c6 = round_double 0.6"
  define c4 :: real where "c4 = round_double 0.4"
  define a where "a = round_double (c6 * n)"
  define b where "b = round_double (c4 * u)"
  define f where "f = round_double (a + b)"
  have res: "fst (combine_risks n u) = f"
    by (simp add: combine_risks_def Let_def fadd_def fmul_def a_def b_def f_def c6_def c4_def)
  have c6: "\<bar>c6 - 0.6\<bar> \<le> e" "\<bar>c6\<bar> \<le> 1"
    unfolding c6_def double_06 e_def by simp_all
  have c4: "\<bar>c4 - 0.4\<bar> \<le> e" "\<bar>c4\<bar> \<le> 1"
    unfolding c4_def double_04 e_def by simp_all
  have pn: "\<bar>c6 * n\<bar> \<le> \<bar>n\<bar>"
    using c6(2) by (simp add: abs_mult mult_left_le_one_le)
  have pu: "\<bar>c4 * u\<bar> \<le> \<bar>u\<bar>"
    using c4(2) by (simp add: abs_mult mult_left_le_one_le)
  have pn': "\<bar>c6 * n\<bar> * e \<le> \<bar>n\<bar> * e"
    using pn e(1) by (rule mult_right_mono)
  have pu': "\<bar>c4 * u\<bar> * e \<le> \<bar>u\<bar> * e"
    using pu e(1) by (rule mult_right_mono)
  have ne: "\<bar>n\<bar> * e \<le> \<bar>n\<bar> * (1 / 8)"
    using e(2) by (rule mult_left_mono) simp
  have ue: "\<bar>u\<bar> * e \<le> \<bar>u\<bar> * (1 / 8)"
    using e(2) by (rule mult_left_mono) simp
  have "h * e \<le> h * (1 / 8)"
    using e(2) h by (rule mult_left_mono)
  then have he: "h * e \<le> h / 8" by simp
  have dn: "\<bar>c6 * n - 0.6 * n\<bar> \<le> \<bar>n\<bar> * e"
  proof -
    have "\<bar>c6 * n - 0.6 * n\<bar> = \<bar>c6 - 0.6\<bar> * \<bar>n\<bar>"
      by (simp add: abs_mult [symmetric] algebra_simps)
    also have "\<dots> \<le> e * \<bar>n\<bar>"
      using c6(1) by (intro mult_right_mono) simp_all
    finally show ?thesis by (simp add: mult.commute)
  qed
  have du: "\<bar>c4 * u - 0.4 * u\<bar> \<le> \<bar>u\<bar> * e"
  proof -
    have "\<bar>c4 * u - 0.4 * u\<bar> = \<bar>c4 - 0.4\<bar> * \<bar>u\<bar>"
      by (simp add: abs_mult [symmetric] algebra_simps)
    also have "\<dots> \<le> e * \<bar>u\<bar>"
      using c4(1) by (intro mult_right_mono) simp_all
    finally show ?thesis by (simp add: mult.commute)
  qed
  have ea: "\<bar>a - c6 * n\<bar> \<le> \<bar>c6 * n\<bar> * e + h"
    using round_double_error [of "c6 * n"] by (simp add: a_def h_def e_def)
  have eb: "\<bar>b - c4 * u\<bar> \<le> \<bar>c4 * u\<bar> * e + h"
    using round_double_error [of "c4 * u"] by (simp add: b_def h_def e_def)
  have ef: "\<bar>f - (a + b)\<bar> \<le> \<bar>a + b\<bar> * e + h"
    using round_double_error [of "a + b"] by (simp add: f_def h_def e_def)
  have an: "\<bar>a - 0.6 * n\<bar> \<le> 2 * (\<bar>n\<bar> * e) + h"
    using ea dn pn' by linarith
  have bu: "\<bar>b - 0.4 * u\<bar> \<le> 2 * (\<bar>u\<bar> * e) + h"
    using eb du pu' by linarith
  have ab: "\<bar>a + b\<bar> \<le> \<bar>n\<bar> + \<bar>u\<bar> + 2 * h"
    using an bu ne ue by linarith
  have "\<bar>a + b\<bar> * e \<le> (\<bar>n\<bar> + \<bar>u\<bar> + 2 * h) * e"
    using ab e(1) by (rule mult_right_mono)
  then have abe: "\<bar>a + b\<bar> * e \<le> \<bar>n\<bar> * e + \<bar>u\<bar> * e + 2 * (h * e)"
    by (simp add: algebra_simps)
  have nn: "0 \<le> \<bar>n\<bar> * e" "0 \<le> \<bar>u\<bar> * e"
    using e(1) by simp_all
  have tri: "\<bar>f - (0.6 * n + 0.4 * u)\<bar>
      \<le> \<bar>f - (a + b)\<bar> + \<bar>a - 0.6 * n\<bar> + \<bar>b - 0.4 * u\<bar>"
    by linarith
  have "\<bar>f - (a + b)\<bar> + \<bar>a - 0.6 * n\<bar> + \<bar>b - 0.4 * u\<bar>
      \<le> 4 * (\<bar>n\<bar> * e + \<bar>u\<bar> * e) + 4 * h"
  proof -
    have aux: "x1 + x2 + x3 \<le> 4 * (p + q) + 4 * k"
      if "x1 \<le> y + k" "x2 \<le> 2 * p + k" "x3 \<le> 2 * q + k" "y \<le> p + q + 2 * z"
        "z \<le> k / 8" "0 \<le> k" "0 \<le> p" "0 \<le> q"
      for x1 x2 x3 y p q z k :: real
      using that by argo
    show ?thesis by (rule aux [OF ef an bu abe he h nn])
  qed
  with tri have "\<bar>f - (0.6 * n + 0.4 * u)\<bar> \<le> 4 * (\<bar>n\<bar> * e + \<bar>u\<bar> * e) + 4 * h"
    by (rule order_trans)
  also have "4 * (\<bar>n\<bar> * e + \<bar>u\<bar> * e) = (\<bar>n\<bar> + \<bar>u\<bar>) / 2 ^ 51"
    by (simp add: e_def field_simps)
  finally show ?thesis by (simp add: res h_def)
qed


lemma fuse_04_09_p:
  "round_double (5404319552844595 / 2 ^ 53 * (3602879701896397 / 2 ^ 53))
     = 8646911284551352 / 2 ^ 55"
  by (subst round_double_eval [where k = "- 3"]) (simp_all add: round_half_even_def power_int_minus)

lemma fuse_04_09_q:
  "round_double (3602879701896397 / 2 ^ 53 * (8106479329266893 / 2 ^ 53))
     = 6485183463413515 / 2 ^ 54"
  by (subst round_double_eval [where k = "- 2"]) (simp_all add: round_half_even_def power_int_minus)

lemma fuse_04_09_s:
  "round_double (8646911284551352 / 2 ^ 55 + 6485183463413515 / 2 ^ 54)
     = 5404319552844596 / 2 ^ 53"
  by (subst round_double_eval [where k = "- 1"]) (simp_all add: round_half_even_def power_int_minus)

lemma fuse_04_09:
  "combine_risks (round_double 0.4) (round_double 0.9) = (5404319552844596 / 2 ^ 53, ''HIGH'')"
  unfolding combine_risks_def Let_def fmul_def fadd_def double_04 double_06 double_08 double_09
    fuse_04_09_p fuse_04_09_q fuse_04_09_s
  by simp

lemma fuse_05_01_p:
  "round_double (5404319552844595 / 2 ^ 53 * (1 / 2)) = 5404319552844595 / 2 ^ 54"
  by (subst round_double_eval [where k = "- 2"]) (simp_all add: round_half_even_def power_int_minus)

lemma fuse_05_01_q:
  "round_double (3602879701896397 / 2 ^ 53 * (3602879701896397 / 2 ^ 55))
     = 5764607523034236 / 2 ^ 57"
  by (subst round_double_eval [where k = "- 5"]) (simp_all add: round_half_even_def power_int_minus)

lemma fuse_05_01_s:
  "round_double (5404319552844595 / 2 ^ 54 + 5764607523034236 / 2 ^ 57)
     = 3062447746611937 / 2 ^ 53"
  by (subst round_double_eval [where k = "- 2"]) (simp_all add: round_half_even_def power_int_minus)

lemma fuse_05_01:
  "combine_risks (round_double (1 / 2)) (round_double 0.1) = (3062447746611937 / 2 ^ 53, ''LOW'')"
  unfolding combine_risks_def Let_def fmul_def fadd_def double_04 double_06 double_08 double_01
    round_double_half fuse_05_01_p fuse_05_01_q fuse_05_01_s
  by simp

lemma reading_fuse_05_01: "reading (3062447746611937 / 2 ^ 53) = 3062447746611937 / 2 ^ 53"
  unfolding reading_def double_04 double_06 double_08 by simp

lemma combine_risks_1_1: "combine_risks 1 1 = (1, ''CRITICAL'')"
  unfolding combine_risks_def Let_def fmul_def fadd_def double_04 double_06 double_08
    mult_1_right double_06_again double_04_again
  by simp


subsection \<open>Rounding twice, and the doubles next to the thresholds\<close>

lemma round_half_even_of_int: "round_half_even (of_int n) = n"
  by (simp add: round_half_even_def)

lemma round_half_even_lower: "of_int a \<le> y \<Longrightarrow> a \<le> round_half_even y"
proof -
  assume "of_int a \<le> y"
  then have "a \<le> \<lfloor>y\<rfloor>" by (simp add: le_floor_iff)
  then show ?thesis by (simp add: round_half_even_def Let_def)
qed

lemma round_half_even_upper: "y \<le> of_int b \<Longrightarrow> round_half_even y \<le> b"
proof -
  assume h: "y \<le> of_int b"
  then have f: "\<lfloor>y\<rfloor> \<le> b" by (simp add: floor_le_iff)
  show ?thesis
  proof (cases "y = of_int \<lfloor>y\<rfloor>")
    case True
    then have "y - of_int \<lfloor>y\<rfloor> = 0" by simp
    with f show ?thesis by (simp add: round_half_even_def Let_def)
  next
    case False
    then have "of_int \<lfloor>y\<rfloor> < y" by linarith
    with h have "of_int \<lfloor>y\<rfloor> < (of_int b :: real)" by linarith
    then have "\<lfloor>y\<rfloor> < b" by simp
    then show ?thesis by (simp add: round_half_even_def Let_def)
  qed
qed

lemma binade_upper: "x \<noteq> 0 \<Longrightarrow> \<bar>x\<bar> < 2 powi (binade x + 1)"
proof -
  assume x: "x \<noteq> 0"
  define j where "j = \<lfloor>log 2 \<bar>x\<bar>\<rfloor>"
  have "\<bar>x\<bar> < 2 powr (real_of_int j + 1)"
    using x floor_log_eq_powr_iff [of "\<bar>x\<bar>" 2 j] by (simp add: j_def)
  moreover have "(2::real) powr real_of_int (j + 1) = 2 powi (j + 1)"
    by (rule powr_real_of_int') simp_all
  ultimately have "\<bar>x\<bar> < 2 powi (j + 1)" by simp
  moreover have "(2::real) powi (j + 1) \<le> 2 powi (binade x + 1)"
    by (rule power_int_increasing) (simp_all add: binade_def j_def)
  ultimately show ?thesis by linarith
qed

lemma binade_lower: "x \<noteq> 0 \<Longrightarrow> 2 powi binade x \<le> \<bar>x\<bar> \<or> binade x = - 1022"
proof -
  assume x: "x \<noteq> 0"
  define j where "j = \<lfloor>log 2 \<bar>x\<bar>\<rfloor>"
  have "2 powr real_of_int j \<le> \<bar>x\<bar>"
    using x floor_log_eq_powr_iff [of "\<bar>x\<bar>" 2 j] by (simp add: j_def)
  then have "2 powi j \<le> \<bar>x\<bar>" by (simp add: powr_real_of_int')
  then show ?thesis by (cases "- 1022 \<le> j") (auto simp: binade_def j_def max_def)
qed

lemma binade_small:
  assumes "x \<noteq> 0" and "\<bar>x\<bar> < 2 powi (- 1022)"
  shows "binade x = - 1022"
proof -
  define j where "j = \<lfloor>log 2 \<bar>x\<bar>\<rfloor>"
  have "2 powr real_of_int j \<le> \<bar>x\<bar>"
    using assms(1) floor_log_eq_powr_iff [of "\<bar>x\<bar>" 2 j] by (simp add: j_def)
  then have "2 powi j \<le> \<bar>x\<bar>" by (simp add: powr_real_of_int')
  with assms(2) have lt: "(2::real) powi j < 2 powi (- 1022)" by linarith
  have "j < - 1022"
  proof (rule ccontr)
    assume "\<not> j < - 1022"
    then have "(2::real) powi (- 1022) \<le> 2 powi j"
      by (intro power_int_increasing) simp_all
    with lt show False by linarith
  qed
  then show ?thesis by (simp add: binade_def j_def)
qed


lemma round_double_idem: "round_double (round_double x) = round_double x"
proof (cases "x = 0")
  case True
  then show ?thesis by simp
next
  case x: False
  define k where "k = binade x"
  define q :: real where "q = 2 powi (k - 52)"
  define m where "m = round_half_even (x / q)"
  define r where "r = of_int m * q"
  have q: "0 < q" by (simp add: q_def zero_less_power_int)
  have k: "- 1022 \<le> k" by (simp add: k_def binade_def)
  have r: "round_double x = r"
    using x by (simp add: round_double_def r_def m_def q_def k_def)
  have up: "2 powi (k + 1) = q * 2 ^ 53"
  proof -
    have e: "k + 1 = k - 52 + 53" by simp
    show ?thesis unfolding e q_def by (subst power_int_add) simp_all
  qed
  have lo: "2 powi k = q * 2 ^ 52"
  proof -
    have e: "2 powi k = (2::real) powi (k - 52 + 52)" by simp
    show ?thesis unfolding e q_def by (subst power_int_add) simp_all
  qed
  have "\<bar>x\<bar> < q * 2 ^ 53"
    using binade_upper [OF x] by (simp add: k_def [symmetric] up)
  then have "x < q * 2 ^ 53" "- (q * 2 ^ 53) < x" by linarith+
  then have yb: "x / q < 2 ^ 53" "- (2 ^ 53) < x / q"
    using q by (simp_all add: field_simps)
  have m_le: "m \<le> 2 ^ 53"
    unfolding m_def by (rule round_half_even_upper) (use yb(1) in simp)
  have m_ge: "- (2 ^ 53) \<le> m"
    unfolding m_def by (rule round_half_even_lower) (use yb(2) in simp)
  have big: "2 ^ 52 \<le> \<bar>m\<bar>" if "2 powi k \<le> \<bar>x\<bar>"
  proof -
    from that have x2: "q * 2 ^ 52 \<le> \<bar>x\<bar>" by (simp add: lo)
    show ?thesis
    proof (cases "0 \<le> x")
      case True
      with x2 have "q * 2 ^ 52 \<le> x" by simp
      with q have "of_int (2 ^ 52) \<le> x / q" by (simp add: field_simps)
      then have "2 ^ 52 \<le> m" unfolding m_def by (rule round_half_even_lower)
      then show ?thesis by simp
    next
      case False
      with x2 have "x \<le> - (q * 2 ^ 52)" by simp
      with q have "x / q \<le> of_int (- (2 ^ 52))" by (simp add: field_simps)
      then have "m \<le> - (2 ^ 52)" unfolding m_def by (rule round_half_even_upper)
      then show ?thesis by simp
    qed
  qed
  have absr: "\<bar>r\<bar> = of_int \<bar>m\<bar> * q"
    using q by (simp add: r_def abs_mult)
  show ?thesis
  proof (cases "m = 0")
    case True
    then show ?thesis by (simp add: r r_def)
  next
    case m0: False
    show ?thesis
    proof (cases "\<bar>m\<bar> = 2 ^ 53")
      case True
      then have ar: "\<bar>r\<bar> = 2 powi (k + 1)" by (simp add: absr up)
      have lt: "(2::real) powi (k + 1) < 2 powi (k + 1 + 1)"
        by (rule power_int_strict_increasing) simp_all
      have e: "round_double r
          = of_int (round_half_even (r / 2 powi (k + 1 - 52))) * 2 powi (k + 1 - 52)"
        by (rule round_double_eval) (use ar lt k in simp_all)
      have q2: "2 powi (k + 1 - 52) = q * 2"
      proof -
        have e: "k + 1 - 52 = k - 52 + 1" by simp
        show ?thesis unfolding e q_def by (subst power_int_add) simp_all
      qed
      from True have "m = 2 ^ 53 \<or> m = - (2 ^ 53)" by linarith
      then have "r / (q * 2) = of_int (m div 2) \<and> of_int (m div 2) * (q * 2) = r"
        using q by (auto simp: r_def)
      then show ?thesis
        unfolding r e q2 by (simp add: round_half_even_of_int)
    next
      case False
      with m_le m_ge have "\<bar>m\<bar> < 2 ^ 53" by linarith
      then have "of_int \<bar>m\<bar> < (2 ^ 53 :: real)"
        by (metis of_int_less_iff of_int_numeral of_int_power)
      with q have rlt: "\<bar>r\<bar> < 2 powi (k + 1)"
        by (simp add: absr up)
      have r0: "r \<noteq> 0" using m0 q by (simp add: r_def)
      have bk: "binade r = k"
      proof (cases "2 powi k \<le> \<bar>r\<bar>")
        case True
        then show ?thesis using rlt k by (rule binade_eq)
      next
        case small: False
        have "k = - 1022"
        proof (rule ccontr)
          assume "k \<noteq> - 1022"
          with binade_lower [OF x] have "2 powi k \<le> \<bar>x\<bar>" by (simp add: k_def)
          then have "2 ^ 52 \<le> \<bar>m\<bar>" by (rule big)
          then have "(2 ^ 52 :: real) \<le> of_int \<bar>m\<bar>"
            by (metis of_int_le_iff of_int_numeral of_int_power)
          with q have "2 powi k \<le> \<bar>r\<bar>" by (simp add: absr lo mult.commute)
          with small show False by simp
        qed
        with small r0 show ?thesis by (simp add: binade_small)
      qed
      have "round_double r = of_int (round_half_even (r / q)) * q"
        using r0 by (simp add: round_double_def bk q_def)
      also have "r / q = of_int m" using q by (simp add: r_def)
      finally show ?thesis by (simp add: r round_half_even_of_int r_def)
    qed
  qed
qed


lemma double_grid:
  assumes "round_double d = d" and "2 powi k \<le> \<bar>d\<bar>" and "\<bar>d\<bar> < 2 powi (k + 1)"
    and "- 1022 \<le> k"
  obtains m :: int where "d = of_int m * 2 powi (k - 52)"
proof -
  have "round_double d = of_int (round_half_even (d / 2 powi (k - 52))) * 2 powi (k - 52)"
    using assms(2-4) by (rule round_double_eval)
  with assms(1) have "d = of_int (round_half_even (d / 2 powi (k - 52))) * 2 powi (k - 52)"
    by simp
  then show ?thesis by (rule that)
qed

lemma no_double_below_08:
  assumes "round_double d = d" and "0.8 \<le> d"
  shows "round_double 0.8 \<le> d"
proof (cases "d < 1")
  case True
  have "2 powi (- 1) \<le> \<bar>d\<bar>" "\<bar>d\<bar> < 2 powi (- 1 + 1)"
    using assms(2) True by (simp_all add: power_int_minus)
  with assms(1) obtain m :: int where "d = of_int m * 2 powi (- 1 - 52)"
    by (rule double_grid) simp
  then have dm: "d = of_int m / 2 ^ 53" by (simp add: power_int_minus field_simps)
  from assms(2) have "real_of_int 36028797018963968 \<le> of_int (m * 5)"
    unfolding dm by (simp add: field_simps)
  then have "36028797018963968 \<le> m * 5" by (simp only: of_int_le_iff)
  then have "7205759403792794 \<le> m" by presburger
  then have "real_of_int 7205759403792794 \<le> of_int m" by (simp only: of_int_le_iff)
  then show ?thesis unfolding double_08 dm by (simp add: field_simps)
next
  case False
  then show ?thesis unfolding double_08 by simp
qed

lemma no_double_above_06:
  assumes "round_double d = d" and "round_double 0.6 < d"
  shows "0.6 \<le> d"
proof (cases "d < 1")
  case True
  have "2 powi (- 1) \<le> \<bar>d\<bar>" "\<bar>d\<bar> < 2 powi (- 1 + 1)"
    using assms(2) True unfolding double_06 by (simp_all add: power_int_minus)
  with assms(1) obtain m :: int where "d = of_int m * 2 powi (- 1 - 52)"
    by (rule double_grid) simp
  then have dm: "d = of_int m / 2 ^ 53" by (simp add: power_int_minus field_simps)
  from assms(2) have "real_of_int 5404319552844595 < of_int m"
    unfolding dm double_06 by (simp add: field_simps)
  then have "5404319552844595 < m" by (simp only: of_int_less_iff)
  then have "27021597764222976 \<le> m * 5" by presburger
  then have "real_of_int 27021597764222976 \<le> of_int (m * 5)" by (simp only: of_int_le_iff)
  then show ?thesis unfolding dm by (simp add: field_simps)
next
  case False
  then show ?thesis by simp
qed

lemma no_double_below_04:
  assumes "round_double d = d" and "0.4 \<le> d"
  shows "round_double 0.4 \<le> d"
proof (cases "d < 1 / 2")
  case True
  have "2 powi (- 2) \<le> \<bar>d\<bar>" "\<bar>d\<bar> < 2 powi (- 2 + 1)"
    using assms(2) True by (simp_all add: power_int_minus)
  with assms(1) obtain m :: int where "d = of_int m * 2 powi (- 2 - 52)"
    by (rule double_grid) simp
  then have dm: "d = of_int m / 2 ^ 54" by (simp add: power_int_minus field_simps)
  from assms(2) have "real_of_int 36028797018963968 \<le> of_int (m * 5)"
    unfolding dm by (simp add: field_simps)
  then have "36028797018963968 \<le> m * 5" by (simp only: of_int_le_iff)
  then have "7205759403792794 \<le> m" by presburger
  then have "real_of_int 7205759403792794 \<le> of_int m" by (simp only: of_int_le_iff)
  then show ?thesis unfolding double_04 dm by (simp add: field_simps)
next
  case False
  then show ?thesis unfolding double_04 by simp
qed

lemma reading_keeps_order:
  assumes "round_double d = d"
  shows "(0.8 \<le> reading d) = (round_double 0.8 \<le> d)"
    and "(0.6 \<le> reading d) = (round_double 0.6 \<le> d)"
    and "(0.4 \<le> reading d) = (round_double 0.4 \<le> d)"
proof -
  define c4 :: real where "c4 = round_double 0.4"
  define c6 :: real where "c6 = round_double 0.6"
  define c8 :: real where "c8 = round_double 0.8"
  have v: "0.4 < c4" "c4 < c6" "c6 < 0.6" "0.8 < c8" "c6 < c8"
    unfolding c4_def c6_def c8_def double_04 double_06 double_08 by simp_all
  have a: "0.8 \<le> d \<Longrightarrow> c8 \<le> d" "c6 < d \<Longrightarrow> 0.6 \<le> d" "0.4 \<le> d \<Longrightarrow> c4 \<le> d"
    unfolding c4_def c6_def c8_def
    using no_double_below_08 [OF assms] no_double_above_06 [OF assms] no_double_below_04 [OF assms]
    by blast+
  have rd: "reading d
      = (if d = c4 then 0.4 else if d = c6 then 0.6 else if d = c8 then 0.8 else d)"
    unfolding reading_def c4_def c6_def c8_def by (rule refl)
  have "(0.8 \<le> reading d) = (c8 \<le> d)"
    unfolding rd using v a by (auto split: if_splits)
  then show "(0.8 \<le> reading d) = (round_double 0.8 \<le> d)" unfolding c8_def .
  have "(0.6 \<le> reading d) = (c6 \<le> d)"
    unfolding rd using v a by (auto split: if_splits)
  then show "(0.6 \<le> reading d) = (round_double 0.6 \<le> d)" unfolding c6_def .
  have "(0.4 \<le> reading d) = (c4 \<le> d)"
    unfolding rd using v a by (auto split: if_splits)
  then show "(0.4 \<le> reading d) = (round_double 0.4 \<le> d)" unfolding c4_def .
qed


text \<open>
  The fused risk is a double, so the agent's comparisons with 0.8, 0.6 and 0.4 on its
  reading are Python's comparisons of the double with the doubles of these literals.
\<close>

lemma fused_risk_is_double:
  "round_double (fst (combine_risks n u)) = fst (combine_risks n u)"
  by (simp add: combine_risks_def Let_def fadd_def round_double_idem)

lemma fused_risk_reading:
  "(0.8 \<le> reading (fst (combine_risks n u))) = (round_double 0.8 \<le> fst (combine_risks n u))"
  "(0.6 \<le> reading (fst (combine_risks n u))) = (round_double 0.6 \<le> fst (combine_risks n u))"
  "(0.4 \<le> reading (fst (combine_risks n u))) = (round_double 0.4 \<le> fst (combine_risks n u))"
  by (rule reading_keeps_order [OF fused_risk_is_double])+

section \<open>Fusion\<close>

text \<open>
  C2, as the code has it. On two doubles of magnitude at most 2 to the power 1023,
  \<open>combine_risks\<close> is a function of its two arguments alone. Its first result is not
  always 0.6 times the network risk plus 0.4 times the user risk: it is the double that
  three roundings give, one after each product with the doubles of 0.6 and 0.4 and one
  after the sum, and it lies within (|n| + |u|) / 2^51 + 2^-1073 of the exact weighted
  sum. Its second result is the level of the returned first result by strict thresholds
  at the doubles of 0.8, 0.6 and 0.4: CRITICAL above the first, HIGH above the second,
  MEDIUM above the third, LOW otherwise. (1.0, 0.0) gives the double of 0.6 and MEDIUM,
  and (0.0, 1.0) gives the double of 0.4 and LOW.
\<close>

theorem combine_risks_rounded_sum:
  assumes "round_double n = n" and "round_double u = u"
    and "\<bar>n\<bar> \<le> 2 ^ 1023" and "\<bar>u\<bar> \<le> 2 ^ 1023"
  shows "fst (combine_risks n u)
      = round_double (round_double (round_double 0.6 * n) + round_double (round_double 0.4 * u)) \<and>
    \<bar>fst (combine_risks n u) - (0.6 * n + 0.4 * u)\<bar>
      \<le> (\<bar>n\<bar> + \<bar>u\<bar>) / 2 ^ 51 + 4 * 2 powi (- 1075) \<and>
    (snd (combine_risks n u) = ''CRITICAL'') = (fst (combine_risks n u) > round_double 0.8) \<and>
    (snd (combine_risks n u) = ''HIGH'')
      = (fst (combine_risks n u) > round_double 0.6 \<and> fst (combine_risks n u) \<le> round_double 0.8) \<and>
    (snd (combine_risks n u) = ''MEDIUM'')
      = (fst (combine_risks n u) > round_double 0.4 \<and> fst (combine_risks n u) \<le> round_double 0.6) \<and>
    (snd (combine_risks n u) = ''LOW'') = (fst (combine_risks n u) \<le> round_double 0.4) \<and>
    round_double 0.4 = 3602879701896397 / 2 ^ 53 \<and>
    round_double 0.6 = 5404319552844595 / 2 ^ 53 \<and>
    round_double 0.8 = 7205759403792794 / 2 ^ 53 \<and>
    combine_risks 1 0 = (round_double 0.6, ''MEDIUM'') \<and>
    combine_risks 0 1 = (round_double 0.4, ''LOW'')"
proof -
  have a: "fst (combine_risks n u)
      = round_double (round_double (round_double 0.6 * n) + round_double (round_double 0.4 * u))"
    by (simp add: combine_risks_def Let_def fadd_def fmul_def)
  note b = combine_risks_error [of n u]
  note c = combine_risks_level [of n u]
  from a b c double_04 double_06 double_08 combine_risks_1_0 combine_risks_0_1
  show ?thesis by blast
qed

theorem combine_risks_rounded_sum_witness:
  "round_double 1 = 1 \<and> round_double 0 = 0 \<and> \<bar>1 :: real\<bar> \<le> 2 ^ 1023 \<and> \<bar>0 :: real\<bar> \<le> 2 ^ 1023 \<and>
   fst (combine_risks 1 0) = 5404319552844595 / 2 ^ 53 \<and>
   snd (combine_risks 1 0) = ''MEDIUM'' \<and>
   \<bar>fst (combine_risks 1 0) - 0.6\<bar> \<le> 1 / 2 ^ 51 + 4 * 2 powi (- 1075)"
proof -
  have h: "round_double 1 = 1" "round_double 0 = 0" by simp_all
  have m: "\<bar>1 :: real\<bar> \<le> 2 ^ 1023" "\<bar>0 :: real\<bar> \<le> 2 ^ 1023" by simp_all
  note th = combine_risks_rounded_sum [OF h m]
  note c2 = th [THEN conjunct2, THEN conjunct1]
  note c8 = th [THEN conjunct2, THEN conjunct2, THEN conjunct2, THEN conjunct2, THEN conjunct2,
                THEN conjunct2, THEN conjunct2, THEN conjunct1]
  note c10 = th [THEN conjunct2, THEN conjunct2, THEN conjunct2, THEN conjunct2, THEN conjunct2,
                THEN conjunct2, THEN conjunct2, THEN conjunct2, THEN conjunct2, THEN conjunct1]
  have 1: "fst (combine_risks 1 0) = 5404319552844595 / 2 ^ 53"
    unfolding c10 fst_conv by (rule c8)
  have 2: "snd (combine_risks 1 0) = ''MEDIUM''"
    unfolding c10 by simp
  have 3: "\<bar>fst (combine_risks 1 0) - 0.6\<bar> \<le> 1 / 2 ^ 51 + 4 * 2 powi (- 1075)"
    using c2 by simp
  from h m 1 2 3 show ?thesis by blast
qed

text \<open>
  The claim as the specification words it fails in floating point. For the risks 0.4
  and 0.9 the weighted sum of the decimals is exactly 0.6, which is not above 0.6, and
  the specification gives MEDIUM. The code returns 0.6000000000000001, which is neither
  the decimal 0.6, nor its double, nor the exact weighted sum of the two doubles it was
  given, and the level HIGH.
\<close>

theorem combine_risks_not_exact:
  "fst (combine_risks (round_double 0.4) (round_double 0.9)) = 5404319552844596 / 2 ^ 53 \<and>
   snd (combine_risks (round_double 0.4) (round_double 0.9)) = ''HIGH'' \<and>
   0.6 * 0.4 + 0.4 * 0.9 = (0.6 :: real) \<and>
   fst (combine_risks (round_double 0.4) (round_double 0.9)) \<noteq> 0.6 \<and>
   fst (combine_risks (round_double 0.4) (round_double 0.9)) \<noteq> round_double 0.6 \<and>
   fst (combine_risks (round_double 0.4) (round_double 0.9))
     \<noteq> 0.6 * round_double 0.4 + 0.4 * round_double 0.9"
  unfolding fuse_04_09 fst_conv snd_conv
  unfolding double_04 double_06 double_09
  by simp

section \<open>The expiry sweep\<close>

lemma dict_del_filter:
  "distinct (map fst d) \<Longrightarrow> dict_del k d = filter (\<lambda>p. fst p \<noteq> k) d"
proof (induction d)
  case Nil
  then show ?case by simp
next
  case (Cons p ps)
  have "filter (\<lambda>q. fst q \<noteq> k) ps = ps" if "fst p = k"
  proof -
    from Cons.prems that have "k \<notin> fst ` set ps" by simp
    then have "\<forall>q\<in>set ps. fst q \<noteq> k" by force
    then show ?thesis by (simp add: filter_id_conv)
  qed
  with Cons show ?case by auto
qed

lemma dict_contains_filter:
  "dict_contains k (filter P d) = (\<exists>v. (k, v) \<in> set d \<and> P (k, v))"
  by (force simp: dict_contains_def)

lemma unblock_each_blocked_ips:
  "unique_entries s \<Longrightarrow>
   blocked_ips (unblock_each rv ips s)
     = filter (\<lambda>p. \<not> (fst p \<in> set ips \<and> rv (fst p) = Ok)) (blocked_ips s)"
proof (induction ips arbitrary: s)
  case Nil
  then show ?case by simp
next
  case (Cons ip ips)
  let ?s1 = "snd (unblock_ip_address s ip (rv ip))"
  have u1: "unique_entries ?s1" using Cons.prems by (rule unique_unblock)
  have ih: "blocked_ips (unblock_each rv ips ?s1)
     = filter (\<lambda>p. \<not> (fst p \<in> set ips \<and> rv (fst p) = Ok)) (blocked_ips ?s1)"
    using u1 by (rule Cons.IH)
  show ?case
  proof (cases "dict_contains ip (blocked_ips s) \<and> rv ip = Ok")
    case True
    then have "blocked_ips ?s1 = dict_del ip (blocked_ips s)"
      by (simp add: unblock_accepted)
    also have "\<dots> = filter (\<lambda>p. fst p \<noteq> ip) (blocked_ips s)"
      using Cons.prems by (simp add: dict_del_filter unique_entries_def dict_keys_def)
    finally have "blocked_ips (unblock_each rv ips ?s1)
      = filter (\<lambda>p. \<not> (fst p \<in> set ips \<and> rv (fst p) = Ok))
          (filter (\<lambda>p. fst p \<noteq> ip) (blocked_ips s))"
      using ih by simp
    also have "\<dots> = filter (\<lambda>p. \<not> (fst p \<in> set (ip # ips) \<and> rv (fst p) = Ok)) (blocked_ips s)"
      using True by (auto intro: filter_cong)
    finally show ?thesis by simp
  next
    case False
    then have "unblock_ip_address s ip (rv ip) = (False, s)"
      using unblock_not_blocked unblock_refused by blast
    then have s1: "?s1 = s" by simp
    have "filter (\<lambda>p. \<not> (fst p \<in> set ips \<and> rv (fst p) = Ok)) (blocked_ips s)
      = filter (\<lambda>p. \<not> (fst p \<in> set (ip # ips) \<and> rv (fst p) = Ok)) (blocked_ips s)"
      using False by (auto intro!: filter_cong simp: dict_contains_def)
    with ih s1 show ?thesis by simp
  qed
qed

lemma timedelta_minutes_range:
  "- 1439999998561 < m \<and> m < 1440000000000 \<Longrightarrow> timedelta_minutes m = Inr (minutes m)"
  "\<not> (- 1439999998561 < m \<and> m < 1440000000000) \<Longrightarrow> timedelta_minutes m = Inl OverflowError"
  by (auto simp: timedelta_minutes_def minutes_def)

lemma collect_expired_returns:
  "timedelta_minutes m = Inr limit \<Longrightarrow>
   collect_expired m now d = Inr (map fst (filter (\<lambda>(ip, b). now - blocked_at b > limit) d))"
  by (induction d) auto

lemma collect_expired_raises:
  "timedelta_minutes m = Inl ex \<Longrightarrow>
   collect_expired m now d = (if d = [] then Inr [] else Inl ex)"
  by (cases d) auto

lemma expired_member:
  assumes "distinct (map fst d)" and "(ip, b) \<in> set d"
  shows "ip \<in> set (map fst (filter (\<lambda>(ip, b). now - blocked_at b > limit) d))
         = (now - blocked_at b > limit)"
proof
  assume "ip \<in> set (map fst (filter (\<lambda>(ip, b). now - blocked_at b > limit) d))"
  then obtain b' where b': "(ip, b') \<in> set d" "now - blocked_at b' > limit"
    by auto
  with assms have "b' = b" by (meson eq_key_imp_eq_value)
  with b' show "now - blocked_at b > limit" by simp
next
  assume "now - blocked_at b > limit"
  with assms(2) show "ip \<in> set (map fst (filter (\<lambda>(ip, b). now - blocked_at b > limit) d))"
    by force
qed

lemma sweep_in_range:
  assumes "- 1439999998561 < block_timeout_minutes s \<and> block_timeout_minutes s < 1440000000000"
  shows "check_and_unblock_expired s now rv
     = (None, unblock_each rv
          (map fst (filter (\<lambda>(ip, b). now - blocked_at b > minutes (block_timeout_minutes s))
             (blocked_ips s))) s)"
  using collect_expired_returns [OF timedelta_minutes_range(1) [OF assms]]
  by (simp add: check_and_unblock_expired_def expired_ips_def)

lemma sweep_out_of_range:
  assumes "\<not> (- 1439999998561 < block_timeout_minutes s \<and> block_timeout_minutes s < 1440000000000)"
  shows "check_and_unblock_expired s now rv
     = (if blocked_ips s = [] then None else Some OverflowError, s)"
  using collect_expired_raises [OF timedelta_minutes_range(2) [OF assms]]
  by (simp add: check_and_unblock_expired_def expired_ips_def)

lemma sweep_blocked_ips:
  assumes "unique_entries s"
    and "- 1439999998561 < block_timeout_minutes s \<and> block_timeout_minutes s < 1440000000000"
  shows "blocked_ips (snd (check_and_unblock_expired s now rv))
     = filter (\<lambda>(ip, b). \<not> (now - blocked_at b > minutes (block_timeout_minutes s)
                              \<and> rv ip = Ok)) (blocked_ips s)"
proof -
  have d: "distinct (map fst (blocked_ips s))"
    using assms(1) by (simp add: unique_entries_def dict_keys_def)
  let ?ips = "map fst (filter (\<lambda>(ip, b). now - blocked_at b > minutes (block_timeout_minutes s))
             (blocked_ips s))"
  have "blocked_ips (snd (check_and_unblock_expired s now rv))
     = filter (\<lambda>p. \<not> (fst p \<in> set ?ips \<and> rv (fst p) = Ok)) (blocked_ips s)"
    unfolding sweep_in_range [OF assms(2)] snd_conv using assms(1) by (rule unblock_each_blocked_ips)
  also have "\<dots> = filter (\<lambda>(ip, b). \<not> (now - blocked_at b > minutes (block_timeout_minutes s)
                              \<and> rv ip = Ok)) (blocked_ips s)"
    by (rule filter_cong) (auto simp: expired_member [OF d] simp del: set_map set_filter)
  finally show ?thesis .
qed

lemma sweep_member:
  assumes "unique_entries s"
    and "- 1439999998561 < block_timeout_minutes s \<and> block_timeout_minutes s < 1440000000000"
    and "(ip, b) \<in> set (blocked_ips s)"
  shows "dict_contains ip (blocked_ips (snd (check_and_unblock_expired s now rv)))
     = (\<not> (now - blocked_at b > minutes (block_timeout_minutes s) \<and> rv ip = Ok))"
proof -
  have d: "distinct (map fst (blocked_ips s))"
    using assms(1) by (simp add: unique_entries_def dict_keys_def)
  have "dict_contains ip (blocked_ips (snd (check_and_unblock_expired s now rv)))
    = (\<exists>b'. (ip, b') \<in> set (blocked_ips s) \<and>
             \<not> (now - blocked_at b' > minutes (block_timeout_minutes s) \<and> rv ip = Ok))"
    by (simp add: sweep_blocked_ips [OF assms(1,2)] dict_contains_filter)
  also have "\<dots> = (\<not> (now - blocked_at b > minutes (block_timeout_minutes s) \<and> rv ip = Ok))"
  proof -
    have "b' = b" if "(ip, b') \<in> set (blocked_ips s)" for b'
      using that assms(3) d by (meson eq_key_imp_eq_value)
    with assms(3) show ?thesis by blast
  qed
  finally show ?thesis .
qed

lemma unblock_sum:
  "int (length (blocked_ips (snd (unblock_ip_address s ip e))))
     + total_unblocks (stats (snd (unblock_ip_address s ip e)))
   = int (length (blocked_ips s)) + total_unblocks (stats s)"
proof (cases rule: unblock_cases [of s ip e])
  case skip
  then show ?thesis by simp
next
  case removed
  with length_dict_del [OF removed(1)] show ?thesis by simp
qed

lemma sweep_total_unblocks:
  "total_unblocks (stats (snd (check_and_unblock_expired s now rv)))
   = total_unblocks (stats s) + int (length (blocked_ips s))
       - int (length (blocked_ips (snd (check_and_unblock_expired s now rv))))"
proof -
  define c where "c = int (length (blocked_ips s)) + total_unblocks (stats s)"
  define I :: "agent \<Rightarrow> bool" where "I = (\<lambda>x. int (length (blocked_ips x)) + total_unblocks (stats x) = c)"
  have step: "\<And>x ip e. I x \<Longrightarrow> I (snd (unblock_ip_address x ip e))"
    by (simp add: I_def unblock_sum)
  have "I s" by (simp add: I_def c_def)
  with step have "I (snd (check_and_unblock_expired s now rv))"
    by (rule sweep_preserves)
  then show ?thesis by (simp add: I_def c_def)
qed

lemma unblock_each_foldl:
  "unblock_each rv ips s = foldl (\<lambda>x ip. snd (unblock_ip_address x ip (rv ip))) s ips"
  by (induction ips arbitrary: s) simp_all


lemma negative_timeout_agent_eq:
  "negative_timeout_agent =
     \<lparr> security_group_id = ''sg-test-only'', region = ''ap-south-1'',
       block_timeout_minutes = - 2000000000000, monitoring_interval = 60,
       blocked_ips = [(''203.0.113.42'',
          \<lparr> b_ip_address = ''203.0.113.42'', blocked_at = 0, b_risk_score = 0.92,
            b_security_group_id = ''sg-test-only'', rule_id = None,
            reason = (''Critical threat: Risk '', 0.92) \<rparr>)],
       rate_limited_ips = [],
       alert_history = [\<lparr> a_timestamp = 0, a_ip_address = ''203.0.113.42'', a_risk_score = 0.92,
          a_network_risk = 0.95, a_user_risk = 0.85, a_threat_level = ''CRITICAL'',
          a_action = ''ALERT_SENT'' \<rparr>],
       stats = \<lparr> total_blocks = 1, total_unblocks = 0, total_alerts = 1,
                 total_rate_limits = 0, start_time = 0 \<rparr> \<rparr>"
  by (simp add: negative_timeout_agent_def test_agent_def take_action_def block_ip_address_def
        send_alert_def assess_threat_level_def dict_contains_def)

text \<open>
  C4, as the code has it. \<open>timedelta(minutes=block_timeout_minutes)\<close> exists for a
  timeout strictly between -1439999998561 and 1440000000000 minutes. For such a timeout
  the sweep calls \<open>unblock_ip_address\<close> for exactly the addresses whose entry is older
  than the timeout (\<open>now - blocked_at > block_timeout\<close>, strictly), in the order of the
  registry, and for no other. What it removes is what \<open>unblock_ip_address\<close> removes: the
  entries that are older than the timeout and whose EC2 \<open>revoke\<close> call returns. Every
  other entry stays as it was, and \<open>total_unblocks\<close> goes up by the number of entries
  removed. For a timeout outside that range the sweep of a registry that is not empty
  raises \<open>OverflowError\<close> at the first entry and changes nothing; on an empty registry it
  returns. With a timeout of 10 minutes, an address blocked at time T is still in the
  registry after a sweep at T + 9 min 59 s and after a sweep at T + 10 min; after a
  sweep at T + 10 min 1 s it is absent exactly when its \<open>revoke\<close> call returned, and
  still there when that call raised.
\<close>

theorem sweep_removes_expired_and_revoked:
  assumes "unique_entries s"
  shows
   "(- 1439999998561 < block_timeout_minutes s \<and> block_timeout_minutes s < 1440000000000 \<longrightarrow>
      timedelta_minutes (block_timeout_minutes s) = Inr (minutes (block_timeout_minutes s)) \<and>
      check_and_unblock_expired s now rv
        = (None, foldl (\<lambda>x ip. snd (unblock_ip_address x ip (rv ip))) s
             (map fst (filter (\<lambda>(ip, b). now - blocked_at b > minutes (block_timeout_minutes s))
                (blocked_ips s)))) \<and>
      blocked_ips (snd (check_and_unblock_expired s now rv))
        = filter (\<lambda>(ip, b). \<not> (now - blocked_at b > minutes (block_timeout_minutes s)
                                 \<and> rv ip = Ok)) (blocked_ips s) \<and>
      total_unblocks (stats (snd (check_and_unblock_expired s now rv)))
        = total_unblocks (stats s) + int (length (blocked_ips s))
            - int (length (blocked_ips (snd (check_and_unblock_expired s now rv))))) \<and>
    (\<not> (- 1439999998561 < block_timeout_minutes s \<and> block_timeout_minutes s < 1440000000000) \<longrightarrow>
      timedelta_minutes (block_timeout_minutes s) = Inl OverflowError \<and>
      check_and_unblock_expired s now rv
        = (if blocked_ips s = [] then None else Some OverflowError, s)) \<and>
    (\<forall>ip b. block_timeout_minutes s = 10 \<and> (ip, b) \<in> set (blocked_ips s) \<longrightarrow>
       dict_contains ip (blocked_ips
         (snd (check_and_unblock_expired s (blocked_at b + seconds 599) rv))) \<and>
       dict_contains ip (blocked_ips
         (snd (check_and_unblock_expired s (blocked_at b + minutes 10) rv))) \<and>
       (\<not> dict_contains ip (blocked_ips
         (snd (check_and_unblock_expired s (blocked_at b + seconds 601) rv))))
         = (rv ip = Ok))"
proof -
  let ?R = "- 1439999998561 < block_timeout_minutes s \<and> block_timeout_minutes s < 1440000000000"
  have a: "timedelta_minutes (block_timeout_minutes s) = Inr (minutes (block_timeout_minutes s)) \<and>
      check_and_unblock_expired s now rv
        = (None, foldl (\<lambda>x ip. snd (unblock_ip_address x ip (rv ip))) s
             (map fst (filter (\<lambda>(ip, b). now - blocked_at b > minutes (block_timeout_minutes s))
                (blocked_ips s)))) \<and>
      blocked_ips (snd (check_and_unblock_expired s now rv))
        = filter (\<lambda>(ip, b). \<not> (now - blocked_at b > minutes (block_timeout_minutes s)
                                 \<and> rv ip = Ok)) (blocked_ips s) \<and>
      total_unblocks (stats (snd (check_and_unblock_expired s now rv)))
        = total_unblocks (stats s) + int (length (blocked_ips s))
            - int (length (blocked_ips (snd (check_and_unblock_expired s now rv))))"
    if r: ?R
  proof -
    have 1: "timedelta_minutes (block_timeout_minutes s) = Inr (minutes (block_timeout_minutes s))"
      using r by (rule timedelta_minutes_range(1))
    have 2: "check_and_unblock_expired s now rv
        = (None, foldl (\<lambda>x ip. snd (unblock_ip_address x ip (rv ip))) s
             (map fst (filter (\<lambda>(ip, b). now - blocked_at b > minutes (block_timeout_minutes s))
                (blocked_ips s))))"
      unfolding sweep_in_range [OF r] unblock_each_foldl by (rule refl)
    have 3: "blocked_ips (snd (check_and_unblock_expired s now rv))
        = filter (\<lambda>(ip, b). \<not> (now - blocked_at b > minutes (block_timeout_minutes s)
                                 \<and> rv ip = Ok)) (blocked_ips s)"
      using assms r by (rule sweep_blocked_ips)
    have 4: "total_unblocks (stats (snd (check_and_unblock_expired s now rv)))
        = total_unblocks (stats s) + int (length (blocked_ips s))
            - int (length (blocked_ips (snd (check_and_unblock_expired s now rv))))"
      by (rule sweep_total_unblocks)
    from 1 2 3 4 show ?thesis by blast
  qed
  have b: "timedelta_minutes (block_timeout_minutes s) = Inl OverflowError \<and>
      check_and_unblock_expired s now rv
        = (if blocked_ips s = [] then None else Some OverflowError, s)"
    if r: "\<not> ?R"
    using timedelta_minutes_range(2) [OF r] sweep_out_of_range [OF r] by blast
  have f: "\<forall>ip b. block_timeout_minutes s = 10 \<and> (ip, b) \<in> set (blocked_ips s) \<longrightarrow>
       dict_contains ip (blocked_ips
         (snd (check_and_unblock_expired s (blocked_at b + seconds 599) rv))) \<and>
       dict_contains ip (blocked_ips
         (snd (check_and_unblock_expired s (blocked_at b + minutes 10) rv))) \<and>
       (\<not> dict_contains ip (blocked_ips
         (snd (check_and_unblock_expired s (blocked_at b + seconds 601) rv))))
         = (rv ip = Ok)"
  proof (intro allI impI)
    fix ip b
    assume h: "block_timeout_minutes s = 10 \<and> (ip, b) \<in> set (blocked_ips s)"
    then have m: "(ip, b) \<in> set (blocked_ips s)" by simp
    from h have r: ?R by simp
    note sm = sweep_member [OF assms r m]
    from h show "dict_contains ip (blocked_ips
         (snd (check_and_unblock_expired s (blocked_at b + seconds 599) rv))) \<and>
       dict_contains ip (blocked_ips
         (snd (check_and_unblock_expired s (blocked_at b + minutes 10) rv))) \<and>
       (\<not> dict_contains ip (blocked_ips
         (snd (check_and_unblock_expired s (blocked_at b + seconds 601) rv))))
         = (rv ip = Ok)"
      by (simp add: sm minutes_def seconds_def)
  qed
  from a b f show ?thesis by blast
qed

theorem sweep_removes_expired_and_revoked_witness:
  "unique_entries (blocked_agent 0) \<and>
   block_timeout_minutes (blocked_agent 0) = 10 \<and>
   dict_keys (blocked_ips (blocked_agent 0)) = [''203.0.113.42''] \<and>
   dict_contains ''203.0.113.42'' (blocked_ips
     (snd (check_and_unblock_expired (blocked_agent 0) (seconds 599) (\<lambda>ip. Ok)))) \<and>
   dict_contains ''203.0.113.42'' (blocked_ips
     (snd (check_and_unblock_expired (blocked_agent 0) (minutes 10) (\<lambda>ip. Ok)))) \<and>
   \<not> dict_contains ''203.0.113.42'' (blocked_ips
     (snd (check_and_unblock_expired (blocked_agent 0) (seconds 601) (\<lambda>ip. Ok)))) \<and>
   fst (check_and_unblock_expired (blocked_agent 0) (seconds 601) (\<lambda>ip. Ok)) = None \<and>
   total_unblocks (stats
     (snd (check_and_unblock_expired (blocked_agent 0) (seconds 601) (\<lambda>ip. Ok)))) = 1 \<and>
   unique_entries negative_timeout_agent \<and>
   block_timeout_minutes negative_timeout_agent = - 2000000000000 \<and>
   check_and_unblock_expired negative_timeout_agent (seconds 601) (\<lambda>ip. Ok)
     = (Some OverflowError, negative_timeout_agent)"
proof -
  let ?R = "\<lambda>m :: int. - 1439999998561 < m \<and> m < 1440000000000"
  have u: "unique_entries (blocked_agent 0)"
    by (simp add: blocked_agent_eq unique_entries_def dict_keys_def)
  have t: "block_timeout_minutes (blocked_agent 0) = 10"
    by (simp add: blocked_agent_eq)
  have k: "dict_keys (blocked_ips (blocked_agent 0)) = [''203.0.113.42'']"
    by (simp add: blocked_agent_eq dict_keys_def)
  have r: "?R (block_timeout_minutes (blocked_agent 0))"
    by (simp add: t)
  have m: "(''203.0.113.42'',
          \<lparr> b_ip_address = ''203.0.113.42'', blocked_at = 0, b_risk_score = 0.92,
            b_security_group_id = ''sg-test-only'', rule_id = None,
            reason = (''Critical threat: Risk '', 0.92) \<rparr>) \<in> set (blocked_ips (blocked_agent 0))"
    by (simp add: blocked_agent_eq)
  note th = sweep_removes_expired_and_revoked [OF u, of "seconds 601" "\<lambda>ip. Ok"]
  note c1 = th [THEN conjunct1, THEN mp, OF r]
  note c12 = c1 [THEN conjunct2, THEN conjunct1]
  note c13 = c1 [THEN conjunct2, THEN conjunct2, THEN conjunct1]
  note c14 = c1 [THEN conjunct2, THEN conjunct2, THEN conjunct2]
  note c3 = th [THEN conjunct2, THEN conjunct2, rule_format, OF conjI, OF t m]
  from c3 have 1:
    "dict_contains ''203.0.113.42'' (blocked_ips
       (snd (check_and_unblock_expired (blocked_agent 0) (seconds 599) (\<lambda>ip. Ok))))"
    "dict_contains ''203.0.113.42'' (blocked_ips
       (snd (check_and_unblock_expired (blocked_agent 0) (minutes 10) (\<lambda>ip. Ok))))"
    "\<not> dict_contains ''203.0.113.42'' (blocked_ips
       (snd (check_and_unblock_expired (blocked_agent 0) (seconds 601) (\<lambda>ip. Ok))))"
    by simp_all
  from c12 have 2: "fst (check_and_unblock_expired (blocked_agent 0) (seconds 601) (\<lambda>ip. Ok)) = None"
    by simp
  from c13 have "blocked_ips (snd (check_and_unblock_expired (blocked_agent 0) (seconds 601) (\<lambda>ip. Ok))) = []"
    by (simp add: blocked_agent_eq seconds_def minutes_def)
  with c14 have 3: "total_unblocks (stats
     (snd (check_and_unblock_expired (blocked_agent 0) (seconds 601) (\<lambda>ip. Ok)))) = 1"
    by (simp add: blocked_agent_eq)
  have u': "unique_entries negative_timeout_agent"
    by (simp add: negative_timeout_agent_eq unique_entries_def dict_keys_def)
  have t': "block_timeout_minutes negative_timeout_agent = - 2000000000000"
    by (simp add: negative_timeout_agent_eq)
  have r': "\<not> ?R (block_timeout_minutes negative_timeout_agent)"
    by (simp add: t')
  have ne: "blocked_ips negative_timeout_agent \<noteq> []"
    by (simp add: negative_timeout_agent_eq)
  note th' = sweep_removes_expired_and_revoked [OF u', of "seconds 601" "\<lambda>ip. Ok"]
  note c2 = th' [THEN conjunct2, THEN conjunct1, THEN mp, OF r', THEN conjunct2]
  from c2 ne have 4: "check_and_unblock_expired negative_timeout_agent (seconds 601) (\<lambda>ip. Ok)
     = (Some OverflowError, negative_timeout_agent)"
    by simp
  from u t k 1 2 3 u' t' 4 show ?thesis by blast
qed

text \<open>
  The claim as the specification words it fails where the EC2 \<open>revoke\<close> call raises: the
  address was blocked at time 0 with a timeout of 10 minutes, the sweep runs at
  10 min 1 s, and the address is still in the registry.
\<close>

theorem sweep_revoke_fails:
  "dict_contains ''203.0.113.42'' (blocked_ips
     (snd (check_and_unblock_expired (blocked_agent 0) (seconds 601)
        (\<lambda>ip. ClientError ''InvalidPermission.NotFound''))))"
  by (simp add: blocked_agent_eq check_and_unblock_expired_def expired_ips_def
        timedelta_minutes_def unblock_ip_address_def dict_contains_def seconds_def)


section \<open>Entities without a behaviour entry\<close>

lemma matched_user_none:
  "(matched_user users ip = Inr None) = (\<forall>u\<in>set users. \<exists>i. u_ip u = Some i \<and> i \<noteq> ip)"
  by (induction users) (auto split: option.splits)

lemma fusion_combine_risks_eq:
  "fusion_combine_risks n u
     = Inr (reading (fst (combine_risks (round_double n) (round_double u))),
            snd (combine_risks (round_double n) (round_double u)))"
  by (simp add: fusion_combine_risks_def split: prod.splits)

lemma fuse_half_tenth:
  "combine_risks (round_double 0.5) (round_double 0.1) = (3062447746611937 / 2 ^ 53, ''LOW'')"
proof -
  have "(0.5 :: real) = 1 / 2" by simp
  then show ?thesis unfolding fuse_05_01 [symmetric] by simp
qed

text \<open>
  C9, as the code has it. The lookup of a behaviour entry for the address of a network
  entry finds none exactly when every entry of the behaviour list has an \<open>ip\<close> key and
  none of them carries that address. The user risk is then the fallback 0.1, and the
  entry is handed to \<open>take_action\<close> with the fused risk of its network risk, of magnitude
  at most 2 to the power 1023, and 0.1. With a network risk of 0.5 the fused risk is the
  double 0.33999999999999997, just below 0.34, and the level LOW; the action is LOG and
  the agent is left exactly as it was: registry, alert history and counters are
  unchanged. A cycle over that one entry hands the unchanged agent to the expiry sweep,
  and ends as the sweep ends.
\<close>

theorem unmatched_entity_falls_back:
  assumes "\<forall>u\<in>set users. \<exists>i. u_ip u = Some i \<and> i \<noteq> ip"
    and "n_ip net = Some ip"
  shows "matched_user users ip = Inr None \<and> user_risk_of None = Inr 0.1 \<and>
    (n_network_risk net = Some nr \<and> \<bar>nr\<bar> \<le> 2 ^ 1023 \<longrightarrow>
       process_entry s users fusion_combine_risks net t e
         = Inr (take_action s ip
                  (reading (fst (combine_risks (round_double nr) (round_double 0.1)))) nr 0.1 t e)) \<and>
    (n_network_risk net = Some 0.5 \<longrightarrow>
       combine_risks (round_double 0.5) (round_double 0.1)
         = (3062447746611937 / 2 ^ 53, ''LOW'') \<and>
       (3062447746611937 / 2 ^ 53 :: real) < 0.34 \<and>
       0.34 - 3062447746611937 / 2 ^ 53 < (1 / 10 ^ 16 :: real) \<and>
       reading (3062447746611937 / 2 ^ 53) = 3062447746611937 / 2 ^ 53 \<and>
       assess_threat_level (3062447746611937 / 2 ^ 53) = ''LOW'' \<and>
       process_entry s users fusion_combine_risks net t e = Inr (''LOG'', s) \<and>
       process_entries env users fusion_combine_risks i [net] s = (None, s) \<and>
       run_monitoring_cycle s (Inr [net]) (Inr users) fusion_combine_risks env
         = check_and_unblock_expired s (sweep_time env) (revoke_result env)) \<and>
    (matched_user us a = Inr None) = (\<forall>u\<in>set us. \<exists>i. u_ip u = Some i \<and> i \<noteq> a)"
proof -
  note iff = matched_user_none [of us a]
  have m: "matched_user users ip = Inr None"
    using assms(1) by (simp add: matched_user_none)
  have d: "user_risk_of None = Inr 0.1"
    by (simp add: user_risk_of_def)
  have p: "process_entry s users fusion_combine_risks net t e
         = Inr (take_action s ip
                  (reading (fst (combine_risks (round_double nr) (round_double 0.1)))) nr 0.1 t e)"
    if "n_network_risk net = Some nr" for nr t e
    using that assms(2) m d
    by (simp add: process_entry_def fusion_combine_risks_eq)
  note c = fuse_half_tenth
  have v: "(3062447746611937 / 2 ^ 53 :: real) < 0.34"
    "0.34 - 3062447746611937 / 2 ^ 53 < (1 / 10 ^ 16 :: real)"
    by simp_all
  note r = reading_fuse_05_01
  have a: "assess_threat_level (3062447746611937 / 2 ^ 53) = ''LOW''"
    by (simp add: assess_threat_level_def)
  have l: "process_entry s users fusion_combine_risks net t e = Inr (''LOG'', s)"
    if "n_network_risk net = Some 0.5" for t e
    unfolding p [OF that] c fst_conv r by (simp add: take_action_low)
  have ps: "process_entries env users fusion_combine_risks i [net] s = (None, s)"
    if "n_network_risk net = Some 0.5" for i
    using l [OF that] by simp
  have cy: "run_monitoring_cycle s (Inr [net]) (Inr users) fusion_combine_risks env
         = check_and_unblock_expired s (sweep_time env) (revoke_result env)"
    if "n_network_risk net = Some 0.5"
    using ps [OF that, of 0] by (rule cycle_completes)
  from m d p c v r a l ps cy iff show ?thesis by blast
qed

theorem unmatched_entity_falls_back_witness:
  "u_ip critical_user = Some ''198.51.100.7'' \<and> ''198.51.100.7'' \<noteq> ''X'' \<and>
   matched_user [critical_user] ''X'' = Inr None \<and>
   \<bar>0.5 :: real\<bar> \<le> 2 ^ 1023 \<and>
   process_entry (blocked_agent 0) [critical_user] fusion_combine_risks
     \<lparr> n_ip = Some ''X'', n_network_risk = Some 0.5 \<rparr> 7 Ok
     = Inr (take_action (blocked_agent 0) ''X''
              (reading (fst (combine_risks (round_double 0.5) (round_double 0.1)))) 0.5 0.1 7 Ok) \<and>
   process_entry (blocked_agent 0) [critical_user] fusion_combine_risks
     \<lparr> n_ip = Some ''X'', n_network_risk = Some 0.5 \<rparr> 7 Ok = Inr (''LOG'', blocked_agent 0) \<and>
   run_monitoring_cycle (blocked_agent 0) (Inr [\<lparr> n_ip = Some ''X'', n_network_risk = Some 0.5 \<rparr>])
     (Inr [critical_user]) fusion_combine_risks late_env
     = check_and_unblock_expired (blocked_agent 0) (seconds 601) (\<lambda>ip. Ok)"
proof -
  have h0: "u_ip critical_user = Some ''198.51.100.7''" "''198.51.100.7'' \<noteq> ''X''"
    by (simp_all add: critical_user_def)
  have h: "\<forall>u\<in>set [critical_user]. \<exists>i. u_ip u = Some i \<and> i \<noteq> ''X''"
    using h0 by simp
  have n: "n_ip \<lparr> n_ip = Some ''X'', n_network_risk = Some 0.5 \<rparr> = Some ''X''" by simp
  have q: "n_network_risk \<lparr> n_ip = Some ''X'', n_network_risk = Some 0.5 \<rparr> = Some 0.5" by simp
  note th = unmatched_entity_falls_back [OF h n, of "0.5" "blocked_agent 0" 7 Ok late_env 0]
  have bd: "\<bar>0.5 :: real\<bar> \<le> 2 ^ 1023" by simp
  note c1 = th [THEN conjunct1]
  note c3 = th [THEN conjunct2, THEN conjunct2, THEN conjunct1, THEN mp, OF conjI, OF q bd]
  note c4 = th [THEN conjunct2, THEN conjunct2, THEN conjunct2, THEN conjunct1, THEN mp, OF q]
  note c45 = c4 [THEN conjunct2, THEN conjunct2, THEN conjunct2, THEN conjunct2, THEN conjunct2,
                 THEN conjunct1]
  note c47 = c4 [THEN conjunct2, THEN conjunct2, THEN conjunct2, THEN conjunct2, THEN conjunct2,
                 THEN conjunct2, THEN conjunct2]
  have e: "sweep_time late_env = seconds 601" "revoke_result late_env = (\<lambda>ip. Ok)"
    by (simp_all add: late_env_def)
  from c47 have c47': "run_monitoring_cycle (blocked_agent 0)
     (Inr [\<lparr> n_ip = Some ''X'', n_network_risk = Some 0.5 \<rparr>])
     (Inr [critical_user]) fusion_combine_risks late_env
     = check_and_unblock_expired (blocked_agent 0) (seconds 601) (\<lambda>ip. Ok)"
    unfolding e .
  from h0 c1 bd c3 c45 c47' show ?thesis by blast
qed

text \<open>
  The claim as the specification words it fails twice. The fused risk of 0.5 and 0.1 is
  not 0.34, nor the double of 0.34: it is the double below it. And a behaviour list
  whose only entry has no \<open>ip\<close> key holds no entry that matches the address, yet the
  network entry gets no fallback: the lookup raises \<open>KeyError\<close> and \<open>take_action\<close> is not
  called.
\<close>

theorem unmatched_entity_no_fallback:
  "fst (combine_risks (round_double 0.5) (round_double 0.1)) \<noteq> 0.34 \<and>
   fst (combine_risks (round_double 0.5) (round_double 0.1)) \<noteq> round_double 0.34 \<and>
   matched_user [\<lparr> u_ip = None, u_user_risk = Some 0.2 \<rparr>] ''X'' = Inl (KeyError ''ip'') \<and>
   process_entry (test_agent 0) [\<lparr> u_ip = None, u_user_risk = Some 0.2 \<rparr>] fusion_combine_risks
     \<lparr> n_ip = Some ''X'', n_network_risk = Some 0.5 \<rparr> 0 Ok = Inl (KeyError ''ip'')"
  unfolding fuse_half_tenth fst_conv double_034
  by (simp add: process_entry_def)


text \<open>
  An unmatched entry whose network risk is 0.9333333333333332: the fused risk is the
  double of 0.6 exactly. \<open>combine_risks\<close> calls it MEDIUM, since it is not above 0.6, and
  \<open>take_action\<close>, whose bounds are inclusive, rate-limits the address.
\<close>

lemma fuse_threshold_n:
  "round_double 0.9333333333333332 = 8406719304424925 / 2 ^ 53"
  by (subst round_double_eval [where k = "- 1"]) (simp_all add: round_half_even_def power_int_minus)

lemma fuse_threshold_p:
  "round_double (5404319552844595 / 2 ^ 53 * (8406719304424925 / 2 ^ 53))
     = 5044031582654955 / 2 ^ 53"
  by (subst round_double_eval [where k = "- 1"]) (simp_all add: round_half_even_def power_int_minus)

lemma fuse_threshold_s:
  "round_double (5044031582654955 / 2 ^ 53 + 5764607523034236 / 2 ^ 57)
     = 5404319552844595 / 2 ^ 53"
  by (subst round_double_eval [where k = "- 1"]) (simp_all add: round_half_even_def power_int_minus)

lemma fuse_threshold:
  "combine_risks (round_double 0.9333333333333332) (round_double 0.1)
     = (round_double 0.6, ''MEDIUM'')"
  unfolding combine_risks_def Let_def fmul_def fadd_def double_04 double_06 double_08 double_01
    fuse_threshold_n fuse_threshold_p fuse_05_01_q fuse_threshold_s
  by simp

lemma threshold_entry_rate_limited:
  "fusion_combine_risks 0.9333333333333332 0.1 = Inr (0.6, ''MEDIUM'')"
  "fst (take_action s ip 0.6 n u t e) = ''RATE_LIMIT''"
proof -
  show "fusion_combine_risks 0.9333333333333332 0.1 = Inr (0.6, ''MEDIUM'')"
    unfolding fusion_combine_risks_eq fuse_threshold fst_conv snd_conv reading_literals
    by (rule refl)
  show "fst (take_action s ip 0.6 n u t e) = ''RATE_LIMIT''"
    by (simp add: take_action_def)
qed

section \<open>Failures inside a monitoring cycle\<close>

lemma process_entries_append:
  "process_entries env us f i (pre @ rest) s =
     (case process_entries env us f i pre s of
        (Some ex, s') \<Rightarrow> (Some ex, s')
      | (None, s') \<Rightarrow> process_entries env us f (i + length pre) rest s')"
proof (induction pre arbitrary: s i)
  case Nil
  then show ?case by simp
next
  case (Cons net pre)
  show ?case
  proof (cases "process_entry s us f net (clock env i) (authorize env i)")
    case (Inl ex)
    then show ?thesis by simp
  next
    case (Inr p)
    obtain a s' where "p = (a, s')" by (cases p)
    with Inr Cons.IH [of "Suc i" s'] show ?thesis
      by (simp split: prod.splits option.splits)
  qed
qed

lemma process_entry_fails_alike:
  "isl (process_entry s us f net t e) = isl (process_entry s' us f net t' e')"
  by (simp add: process_entry_def split: option.splits sum.splits prod.splits)

lemma cycle_stops:
  assumes "process_entries env us f 0 pre s = (None, s1)"
    and "process_entry s1 us f net (clock env (length pre)) (authorize env (length pre)) = Inl ex"
  shows "run_monitoring_cycle s (Inr (pre @ net # post)) (Inr us) f env = (Some ex, s1)"
proof -
  have "process_entries env us f 0 (pre @ net # post) s = (Some ex, s1)"
    using assms by (simp add: process_entries_append)
  then show ?thesis by (simp add: run_monitoring_cycle_def)
qed

text \<open>
  C6, as the code has it. The two \<open>detect()\<close> calls, the loop over the network entries
  and the sweep stand in one \<open>try\<close> block. When the entries before one entry are
  processed without a failure and processing that entry raises, \<open>run_monitoring_cycle\<close>
  returns at once: the exception is logged, the agent is as the earlier entries left
  it, the entries after it are not processed and the sweep does not run. When no entry
  raises, every entry is processed and the sweep runs on the result; the cycle ends as
  the sweep ends, so with a timeout that no \<open>timedelta\<close> can hold and a registry that is
  not empty it logs the \<open>OverflowError\<close> of the sweep, and with a timeout in range it
  logs nothing. Whether processing an entry raises does not depend on the agent, the
  clock or the answer of the EC2 service: a call the EC2 service refuses is caught where
  it is made and is no failure of the entry. A \<open>detect()\<close> call that raises ends the
  cycle before any entry is processed.
\<close>

theorem cycle_stops_at_first_failure:
  "(process_entries env us f 0 pre s = (None, s1) \<and>
    process_entry s1 us f net (clock env (length pre)) (authorize env (length pre)) = Inl ex \<longrightarrow>
      run_monitoring_cycle s (Inr (pre @ net # post)) (Inr us) f env = (Some ex, s1)) \<and>
   (process_entries env us f 0 nets s = (None, s2) \<longrightarrow>
      run_monitoring_cycle s (Inr nets) (Inr us) f env
        = check_and_unblock_expired s2 (sweep_time env) (revoke_result env)) \<and>
   (process_entries env us f 0 nets s = (None, s2) \<and>
    - 1439999998561 < block_timeout_minutes s2 \<and> block_timeout_minutes s2 < 1440000000000 \<longrightarrow>
      fst (run_monitoring_cycle s (Inr nets) (Inr us) f env) = None) \<and>
   (process_entries env us f 0 nets s = (None, s2) \<and> blocked_ips s2 \<noteq> [] \<and>
    \<not> (- 1439999998561 < block_timeout_minutes s2 \<and> block_timeout_minutes s2 < 1440000000000) \<longrightarrow>
      run_monitoring_cycle s (Inr nets) (Inr us) f env = (Some OverflowError, s2)) \<and>
   isl (process_entry s us f net t e) = isl (process_entry s' us f net t' e') \<and>
   run_monitoring_cycle s (Inl ex) ueba f env = (Some ex, s) \<and>
   run_monitoring_cycle s (Inr nets) (Inl ex) f env = (Some ex, s)"
proof -
  have a: "process_entries env us f 0 pre s = (None, s1) \<and>
    process_entry s1 us f net (clock env (length pre)) (authorize env (length pre)) = Inl ex \<longrightarrow>
      run_monitoring_cycle s (Inr (pre @ net # post)) (Inr us) f env = (Some ex, s1)"
    using cycle_stops by blast
  have b: "process_entries env us f 0 nets s = (None, s2) \<longrightarrow>
      run_monitoring_cycle s (Inr nets) (Inr us) f env
        = check_and_unblock_expired s2 (sweep_time env) (revoke_result env)"
    using cycle_completes by blast
  have c: "process_entries env us f 0 nets s = (None, s2) \<and>
    - 1439999998561 < block_timeout_minutes s2 \<and> block_timeout_minutes s2 < 1440000000000 \<longrightarrow>
      fst (run_monitoring_cycle s (Inr nets) (Inr us) f env) = None"
  proof
    assume h: "process_entries env us f 0 nets s = (None, s2) \<and>
      - 1439999998561 < block_timeout_minutes s2 \<and> block_timeout_minutes s2 < 1440000000000"
    then have r: "- 1439999998561 < block_timeout_minutes s2 \<and> block_timeout_minutes s2 < 1440000000000"
      by simp
    from h have "run_monitoring_cycle s (Inr nets) (Inr us) f env
        = check_and_unblock_expired s2 (sweep_time env) (revoke_result env)"
      using cycle_completes by blast
    then show "fst (run_monitoring_cycle s (Inr nets) (Inr us) f env) = None"
      by (simp add: sweep_in_range [OF r])
  qed
  have d: "process_entries env us f 0 nets s = (None, s2) \<and> blocked_ips s2 \<noteq> [] \<and>
    \<not> (- 1439999998561 < block_timeout_minutes s2 \<and> block_timeout_minutes s2 < 1440000000000) \<longrightarrow>
      run_monitoring_cycle s (Inr nets) (Inr us) f env = (Some OverflowError, s2)"
  proof
    assume h: "process_entries env us f 0 nets s = (None, s2) \<and> blocked_ips s2 \<noteq> [] \<and>
      \<not> (- 1439999998561 < block_timeout_minutes s2 \<and> block_timeout_minutes s2 < 1440000000000)"
    then have r: "\<not> (- 1439999998561 < block_timeout_minutes s2 \<and> block_timeout_minutes s2 < 1440000000000)"
      and ne: "blocked_ips s2 \<noteq> []"
      by simp_all
    from h have "run_monitoring_cycle s (Inr nets) (Inr us) f env
        = check_and_unblock_expired s2 (sweep_time env) (revoke_result env)"
      using cycle_completes by blast
    then show "run_monitoring_cycle s (Inr nets) (Inr us) f env = (Some OverflowError, s2)"
      using ne by (simp add: sweep_out_of_range [OF r])
  qed
  have e: "isl (process_entry s us f net t e) = isl (process_entry s' us f net t' e')"
    by (rule process_entry_fails_alike)
  have g: "run_monitoring_cycle s (Inl ex) ueba f env = (Some ex, s)"
    "run_monitoring_cycle s (Inr nets) (Inl ex) f env = (Some ex, s)"
    by (simp_all add: run_monitoring_cycle_def)
  from a b c d e g show ?thesis by blast
qed

lemma keys_filter_by_time:
  "map fst (filter (\<lambda>(ip, b). Q (blocked_at b)) d)
   = map fst (filter (\<lambda>(ip, t). Q t) (map (\<lambda>(ip, b). (ip, blocked_at b)) d))"
  by (induction d) auto

lemma entry_without_risk_fails:
  "process_entry s us f entry_without_risk t e = Inl (KeyError ''network_risk'')"
  by (simp add: process_entry_def entry_without_risk_def)

lemma reading_one: "reading 1 = 1"
  unfolding reading_def double_04 double_06 double_08 by simp

lemma critical_entry_blocks:
  "process_entry s [critical_user] fusion_combine_risks critical_entry t e
   = Inr (take_action s ''198.51.100.7'' 1 1 1 t e)"
  by (simp add: process_entry_def critical_entry_def critical_user_def user_risk_of_def
        fusion_combine_risks_eq combine_risks_1_1 reading_one)

lemma low_entry_logged:
  "process_entry s [critical_user] fusion_combine_risks
     \<lparr> n_ip = Some ''X'', n_network_risk = Some 0.5 \<rparr> t e = Inr (''LOG'', s)"
proof -
  have "process_entry s [critical_user] fusion_combine_risks
     \<lparr> n_ip = Some ''X'', n_network_risk = Some 0.5 \<rparr> t e
     = Inr (take_action s ''X''
              (reading (fst (combine_risks (round_double 0.5) (round_double 0.1)))) 0.5 0.1 t e)"
    by (simp add: process_entry_def critical_user_def user_risk_of_def fusion_combine_risks_eq)
  then show ?thesis
    unfolding fuse_half_tenth fst_conv reading_fuse_05_01 by (simp add: take_action_low)
qed

lemma critical_entry_state:
  "take_action (blocked_agent 0) ''198.51.100.7'' 1 1 1 (seconds 601) Ok
   = (''BLOCK'',
      send_alert
        ((blocked_agent 0) \<lparr> blocked_ips := blocked_ips (blocked_agent 0) @
             [(''198.51.100.7'',
               \<lparr> b_ip_address = ''198.51.100.7'', blocked_at = seconds 601,
                 b_risk_score = 1, b_security_group_id = ''sg-test-only'', rule_id = None,
                 reason = (''Critical threat: Risk '', 1) \<rparr>)],
           stats := (stats (blocked_agent 0)) \<lparr> total_blocks := 2 \<rparr> \<rparr>)
        ''198.51.100.7'' 1 1 1 ''CRITICAL'' (seconds 601))"
  by (simp add: take_action_def block_ip_address_def assess_threat_level_def
        blocked_agent_eq dict_contains_def)

lemma critical_entry_keys:
  "dict_keys (blocked_ips (snd (take_action (blocked_agent 0) ''198.51.100.7'' 1 1 1 (seconds 601) Ok)))
     = [''203.0.113.42'', ''198.51.100.7'']"
  unfolding critical_entry_state by (simp add: send_alert_def blocked_agent_eq dict_keys_def)


lemma critical_entry_processed:
  "process_entries late_env [critical_user] fusion_combine_risks 0 [critical_entry] (blocked_agent 0)
     = (None, snd (take_action (blocked_agent 0) ''198.51.100.7'' 1 1 1 (seconds 601) Ok))"
  by (simp add: late_env_def critical_entry_blocks split: prod.splits)

theorem cycle_stops_at_first_failure_witness:
  "process_entries late_env [critical_user] fusion_combine_risks 0 [critical_entry] (blocked_agent 0)
     = (None, snd (take_action (blocked_agent 0) ''198.51.100.7'' 1 1 1 (seconds 601) Ok)) \<and>
   process_entry (snd (take_action (blocked_agent 0) ''198.51.100.7'' 1 1 1 (seconds 601) Ok))
     [critical_user] fusion_combine_risks entry_without_risk
     (clock late_env 1) (authorize late_env 1) = Inl (KeyError ''network_risk'') \<and>
   run_monitoring_cycle (blocked_agent 0)
     (Inr [critical_entry, entry_without_risk, critical_entry])
     (Inr [critical_user]) fusion_combine_risks late_env
     = (Some (KeyError ''network_risk''),
        snd (take_action (blocked_agent 0) ''198.51.100.7'' 1 1 1 (seconds 601) Ok)) \<and>
   dict_keys (blocked_ips (snd (take_action (blocked_agent 0) ''198.51.100.7'' 1 1 1 (seconds 601) Ok)))
     = [''203.0.113.42'', ''198.51.100.7''] \<and>
   block_timeout_minutes (snd (take_action (blocked_agent 0) ''198.51.100.7'' 1 1 1 (seconds 601) Ok))
     = 10 \<and>
   run_monitoring_cycle (blocked_agent 0) (Inr [critical_entry]) (Inr [critical_user])
     fusion_combine_risks late_env
     = check_and_unblock_expired
         (snd (take_action (blocked_agent 0) ''198.51.100.7'' 1 1 1 (seconds 601) Ok))
         (sweep_time late_env) (revoke_result late_env) \<and>
   fst (run_monitoring_cycle (blocked_agent 0) (Inr [critical_entry]) (Inr [critical_user])
     fusion_combine_risks late_env) = None \<and>
   process_entries late_env [critical_user] fusion_combine_risks 0
     [\<lparr> n_ip = Some ''X'', n_network_risk = Some 0.5 \<rparr>] negative_timeout_agent
     = (None, negative_timeout_agent) \<and>
   blocked_ips negative_timeout_agent \<noteq> [] \<and>
   block_timeout_minutes negative_timeout_agent = - 2000000000000 \<and>
   run_monitoring_cycle negative_timeout_agent
     (Inr [\<lparr> n_ip = Some ''X'', n_network_risk = Some 0.5 \<rparr>]) (Inr [critical_user])
     fusion_combine_risks late_env
     = (Some OverflowError, negative_timeout_agent)"
proof -
  let ?S = "snd (take_action (blocked_agent 0) ''198.51.100.7'' 1 1 1 (seconds 601) Ok)"
  let ?low = "\<lparr> n_ip = Some ''X'', n_network_risk = Some 0.5 \<rparr>"
  note p = critical_entry_processed
  have b: "process_entry ?S [critical_user] fusion_combine_risks entry_without_risk
     (clock late_env (length [critical_entry])) (authorize late_env (length [critical_entry]))
       = Inl (KeyError ''network_risk'')"
    by (rule entry_without_risk_fails)
  have b': "process_entry ?S [critical_user] fusion_combine_risks entry_without_risk
     (clock late_env 1) (authorize late_env 1) = Inl (KeyError ''network_risk'')"
    by (rule entry_without_risk_fails)
  note k = critical_entry_keys
  have t: "block_timeout_minutes ?S = 10"
    unfolding critical_entry_state by (simp add: send_alert_def blocked_agent_eq)
  have r: "- 1439999998561 < block_timeout_minutes ?S \<and> block_timeout_minutes ?S < 1440000000000"
    unfolding t by simp
  note th = cycle_stops_at_first_failure
    [of late_env "[critical_user]" fusion_combine_risks "[critical_entry]" "blocked_agent 0" ?S
        entry_without_risk "KeyError ''network_risk''" "[critical_entry]" "[critical_entry]" ?S]
  note c1 = th [THEN conjunct1, THEN mp, OF conjI, OF p b]
  note c2 = th [THEN conjunct2, THEN conjunct1, THEN mp, OF p]
  note c3 = th [THEN conjunct2, THEN conjunct2, THEN conjunct1, THEN mp, OF conjI, OF p r]
  from c1 have c1': "run_monitoring_cycle (blocked_agent 0)
     (Inr [critical_entry, entry_without_risk, critical_entry])
     (Inr [critical_user]) fusion_combine_risks late_env
     = (Some (KeyError ''network_risk''), ?S)"
    by simp
  have p': "process_entries late_env [critical_user] fusion_combine_risks 0 [?low]
      negative_timeout_agent = (None, negative_timeout_agent)"
    unfolding process_entries.simps low_entry_logged by simp
  have ne: "blocked_ips negative_timeout_agent \<noteq> []"
    by (simp add: negative_timeout_agent_eq)
  have t': "block_timeout_minutes negative_timeout_agent = - 2000000000000"
    by (simp add: negative_timeout_agent_eq)
  have r': "\<not> (- 1439999998561 < block_timeout_minutes negative_timeout_agent
               \<and> block_timeout_minutes negative_timeout_agent < 1440000000000)"
    unfolding t' by simp
  note th' = cycle_stops_at_first_failure
    [of late_env "[critical_user]" fusion_combine_risks "[]" negative_timeout_agent
        negative_timeout_agent ?low OverflowError "[]" "[?low]" negative_timeout_agent]
  note c4 = th' [THEN conjunct2, THEN conjunct2, THEN conjunct2, THEN conjunct1, THEN mp,
                 OF conjI, OF p' conjI, OF ne r']
  from p b' c1' k t c2 c3 p' ne t' c4 show ?thesis by blast
qed

text \<open>
  The claim as the specification words it fails. The agent holds a block that has
  expired; the first network entry has no \<open>network_risk\<close> and the second is a CRITICAL
  threat. The cycle logs the \<open>KeyError\<close> and leaves the agent as it was: the second
  address is not blocked and the expired block is not swept. The same cycle without the
  first entry blocks the second address and sweeps the expired block.
\<close>

theorem cycle_aborted_by_one_entry:
  "run_monitoring_cycle (blocked_agent 0) (Inr [entry_without_risk, critical_entry])
     (Inr [critical_user]) fusion_combine_risks late_env
     = (Some (KeyError ''network_risk''), blocked_agent 0) \<and>
   dict_keys (blocked_ips (blocked_agent 0)) = [''203.0.113.42''] \<and>
   fst (run_monitoring_cycle (blocked_agent 0) (Inr [critical_entry])
     (Inr [critical_user]) fusion_combine_risks late_env) = None \<and>
   dict_keys (blocked_ips (snd (run_monitoring_cycle (blocked_agent 0) (Inr [critical_entry])
     (Inr [critical_user]) fusion_combine_risks late_env))) = [''198.51.100.7'']"
proof -
  have 1: "run_monitoring_cycle (blocked_agent 0) (Inr [entry_without_risk, critical_entry])
     (Inr [critical_user]) fusion_combine_risks late_env
     = (Some (KeyError ''network_risk''), blocked_agent 0)"
    by (simp add: run_monitoring_cycle_def entry_without_risk_fails)
  have 2: "dict_keys (blocked_ips (blocked_agent 0)) = [''203.0.113.42'']"
    by (simp add: blocked_agent_eq dict_keys_def)
  let ?S = "snd (take_action (blocked_agent 0) ''198.51.100.7'' 1 1 1 (seconds 601) Ok)"
  have cy: "run_monitoring_cycle (blocked_agent 0) (Inr [critical_entry])
     (Inr [critical_user]) fusion_combine_risks late_env
     = check_and_unblock_expired ?S (seconds 601) (\<lambda>ip. Ok)"
    using cycle_completes [OF critical_entry_processed] by (simp add: late_env_def)
  have u: "unique_entries ?S"
    by (intro unique_take_action) (simp add: blocked_agent_eq unique_entries_def dict_keys_def)
  have bl: "map (\<lambda>(ip, b). (ip, blocked_at b)) (blocked_ips ?S)
              = [(''203.0.113.42'', 0), (''198.51.100.7'', seconds 601)]"
    "block_timeout_minutes ?S = 10"
    unfolding critical_entry_state by (simp_all add: send_alert_def blocked_agent_eq)
  have r: "- 1439999998561 < block_timeout_minutes ?S \<and> block_timeout_minutes ?S < 1440000000000"
    unfolding bl(2) by simp
  have 3: "fst (run_monitoring_cycle (blocked_agent 0) (Inr [critical_entry])
     (Inr [critical_user]) fusion_combine_risks late_env) = None"
    unfolding cy sweep_in_range [OF r] by simp
  have sw: "blocked_ips (snd (check_and_unblock_expired ?S (seconds 601) (\<lambda>ip. Ok)))
      = filter (\<lambda>(ip, b). \<not> (seconds 601 - blocked_at b > minutes 10
                               \<and> (Ok::ec2_result) = Ok)) (blocked_ips ?S)"
    using sweep_blocked_ips [OF u r, of "seconds 601" "\<lambda>ip. Ok"]
    by (simp only: bl(2))
  have k: "dict_keys (blocked_ips (snd (check_and_unblock_expired ?S (seconds 601) (\<lambda>ip. Ok))))
      = map fst (filter (\<lambda>(ip, t). \<not> (seconds 601 - t > minutes 10
                                        \<and> (Ok::ec2_result) = Ok))
          (map (\<lambda>(ip, b). (ip, blocked_at b)) (blocked_ips ?S)))"
    unfolding dict_keys_def sw
    by (rule keys_filter_by_time
          [where Q = "\<lambda>t. \<not> (seconds 601 - t > minutes 10 \<and> (Ok::ec2_result) = Ok)"])
  have 4: "dict_keys (blocked_ips (snd (run_monitoring_cycle (blocked_agent 0) (Inr [critical_entry])
     (Inr [critical_user]) fusion_combine_risks late_env))) = [''198.51.100.7'']"
    unfolding cy k bl(1) by (simp add: seconds_def minutes_def)
  from 1 2 3 4 show ?thesis by blast
qed

end
